theory Spec2Isabelle
  imports Main
begin

section \<open>Clock provider\<close>

text \<open>
  A JavaScript string is the list of its code units, and a code unit is a \<open>char\<close>:
  the model covers the strings whose code units are below 256. An HTTP header value
  reaches the handler as a Latin-1 string, so for headers these are all strings.
\<close>

definition isWhiteSpace :: "char \<Rightarrow> bool" where
  "isWhiteSpace c \<longleftrightarrow> of_char c \<in> {9, 10, 11, 12, 13, 32, 160 :: nat}"

definition isDigit :: "char \<Rightarrow> bool" where
  "isDigit c \<longleftrightarrow> 48 \<le> (of_char c :: nat) \<and> (of_char c :: nat) \<le> 57"

definition digitValue :: "char \<Rightarrow> nat" where
  "digitValue c = of_char c - 48"

definition digitsValue :: "string \<Rightarrow> nat" where
  "digitsValue ds = foldl (\<lambda>acc c. 10 * acc + digitValue c) 0 ds"

text \<open>
  The numbers \<open>parseInt\<close> returns: NaN, an integer that a double holds, or an infinity.
  \<open>Finite 0\<close> stands for both zeros, which no comparison tells apart.
\<close>

datatype number = NaN | Finite int | PlusInfinity | MinusInfinity

text \<open>
  The Number value of a natural number: the nearest double, ties to the even mantissa of
  53 bits; \<open>None\<close> when the rounded value reaches \<open>2^1024\<close>, which is Infinity.
  \<open>width m\<close> is the number of binary digits of \<open>m\<close>.
\<close>

fun width :: "nat \<Rightarrow> nat" where
  "width n = (if n = 0 then 0 else Suc (width (n div 2)))"

definition toDouble :: "nat \<Rightarrow> nat option" where
  "toDouble m =
     (if width m \<le> 53 then Some m
      else
        let e = width m - 53;
            q = m div 2 ^ e;
            r = m mod 2 ^ e;
            q' = (if 2 ^ e < 2 * r \<or> (2 * r = 2 ^ e \<and> odd q) then q + 1 else q)
        in if 2 ^ 1024 \<le> q' * 2 ^ e then None else Some (q' * 2 ^ e))"

text \<open>
  \<open>parseInt(s, 10)\<close>: leading white space is skipped, one sign is accepted, and the
  longest prefix of decimal digits is read, whatever follows it; without a digit the
  result is NaN. The result is the Number value of the signed integer of the digits,
  correctly rounded at any length, as the engine of Node does.
\<close>

definition strip_sign :: "string \<Rightarrow> int \<times> string" where
  "strip_sign t =
     (case t of
        c # r \<Rightarrow> if c = CHR ''-'' then (- 1, r) else if c = CHR ''+'' then (1, r) else (1, t)
      | [] \<Rightarrow> (1, t))"

definition leading_digits :: "string \<Rightarrow> string" where
  "leading_digits s = takeWhile isDigit (snd (strip_sign (dropWhile isWhiteSpace s)))"

definition parseInt10 :: "string \<Rightarrow> number" where
  "parseInt10 s =
     (let sign = fst (strip_sign (dropWhile isWhiteSpace s));
          ds = leading_digits s
      in if ds = [] then NaN
         else (case toDouble (digitsValue ds) of
                 None \<Rightarrow> if sign < 0 then MinusInfinity else PlusInfinity
               | Some v \<Rightarrow> Finite (sign * int v)))"

text \<open>\<open>x < 0\<close> on a number.\<close>

fun negative :: "number \<Rightarrow> bool" where
  "negative NaN = False"
| "negative (Finite n) = (n < 0)"
| "negative PlusInfinity = False"
| "negative MinusInfinity = True"

text \<open>
  \<open>getCurrentTime(req)\<close>. \<open>testMode\<close> is \<open>config.testMode\<close>, \<open>hdr\<close> is
  \<open>req.headers['x-test-now-ms']\<close> (\<open>None\<close> when the header is absent) and
  \<open>Date_now\<close> is the value \<open>Date.now()\<close> returns. An empty header value is falsy.
\<close>

definition getCurrentTime :: "bool \<Rightarrow> string option \<Rightarrow> int \<Rightarrow> number" where
  "getCurrentTime testMode hdr Date_now =
     (if testMode \<and> hdr \<noteq> None \<and> hdr \<noteq> Some [] then
        (let testTime = parseInt10 (the hdr)
         in if testTime = NaN \<or> negative testTime then Finite Date_now else testTime)
      else Finite Date_now)"

section \<open>Paste records and the store\<close>

text \<open>
  The persisted object built by the creation handler. \<open>null\<close> is \<open>None\<close>; the
  numbers are integers, as creation only stores integers.
\<close>

record paste =
  content :: string
  created_at :: int
  expires_at :: "int option"
  max_views :: "int option"
  remaining_views :: "int option"
  view_count :: int

text \<open>
  A value held by Redis under a key is a string. \<open>Stringified p\<close> is the string
  \<open>JSON.stringify(p)\<close>, which \<open>JSON.parse\<close> turns back into \<open>p\<close>;
  \<open>Malformed s\<close> is a string \<open>s\<close> on which \<open>JSON.parse\<close> throws, the empty string
  among them. These are the stored strings the model covers. A string that
  \<open>JSON.parse\<close> accepts with a value that is no paste object (\<open>null\<close>, a number,
  an object of another shape) has no image here: the code returns the parsed value and
  leaves the key in place.
\<close>

datatype payload = Stringified paste | Malformed string

definition JSON_stringify :: "paste \<Rightarrow> payload" where
  "JSON_stringify data = Stringified data"

fun JSON_parse :: "payload \<Rightarrow> paste option" where
  "JSON_parse (Stringified p) = Some p"
| "JSON_parse (Malformed s) = None"

text \<open>\<open>!data\<close> on a string: only the empty string is falsy.\<close>

fun falsy :: "payload \<Rightarrow> bool" where
  "falsy (Stringified p) = False"
| "falsy (Malformed s) = (s = [])"

text \<open>
  The state of the storage layer: \<open>redisReady\<close> is \<open>redisClient && redisConnected\<close>,
  \<open>redis\<close> is the content of the remote store, \<open>memoryStore\<close> is the process-local
  \<open>Map\<close>. \<open>faults\<close> is the environment's schedule of transient failures: each Redis
  command takes the head of the list and throws when it is \<open>True\<close>; the empty list
  means that no further command fails. A command that throws leaves the data as it was.
\<close>

record store =
  redisReady :: bool
  redis :: "string \<rightharpoonup> payload"
  memoryStore :: "string \<rightharpoonup> paste"
  faults :: "bool list"

datatype error = RedisError | SaveFailed

definition next_fault :: "store \<Rightarrow> bool \<times> store" where
  "next_fault st = (case faults st of [] \<Rightarrow> (False, st) | f # fs \<Rightarrow> (f, st\<lparr>faults := fs\<rparr>))"

definition redis_set :: "string \<Rightarrow> payload \<Rightarrow> store \<Rightarrow> (error + unit) \<times> store" where
  "redis_set k v st =
     (case next_fault st of
        (True, st') \<Rightarrow> (Inl RedisError, st')
      | (False, st') \<Rightarrow> (Inr (), st'\<lparr>redis := (redis st')(k \<mapsto> v)\<rparr>))"

definition redis_get :: "string \<Rightarrow> store \<Rightarrow> (error + payload option) \<times> store" where
  "redis_get k st =
     (case next_fault st of
        (True, st') \<Rightarrow> (Inl RedisError, st')
      | (False, st') \<Rightarrow> (Inr (redis st' k), st'))"

definition redis_del :: "string \<Rightarrow> store \<Rightarrow> (error + unit) \<times> store" where
  "redis_del k st =
     (case next_fault st of
        (True, st') \<Rightarrow> (Inl RedisError, st')
      | (False, st') \<Rightarrow> (Inr (), st'\<lparr>redis := (redis st')(k := None)\<rparr>))"

definition paste_key :: "string \<Rightarrow> string" where
  "paste_key pid = ''paste:'' @ pid"

subsection \<open>Persistence adapter\<close>

text \<open>
  The three retry loops, with the loop counter \<open>i\<close> and the bound \<open>retries\<close> of the
  source. The wait between two attempts changes nothing in the state. The process-local
  branch stores and returns \<open>JSON.parse(JSON.stringify(data))\<close>, which is \<open>data\<close>
  itself as a value.
\<close>

function savePaste_loop :: "nat \<Rightarrow> nat \<Rightarrow> string \<Rightarrow> paste \<Rightarrow> store \<Rightarrow> (error + bool) \<times> store" where
  "savePaste_loop i retries pid data st =
     (if i < retries then
        (if redisReady st then
           (case redis_set (paste_key pid) (JSON_stringify data) st of
              (Inr u, st') \<Rightarrow> (Inr True, st')
            | (Inl e, st') \<Rightarrow>
                if i = retries - 1 then (Inl SaveFailed, st')
                else savePaste_loop (i + 1) retries pid data st')
         else (Inr True, st\<lparr>memoryStore := (memoryStore st)(pid \<mapsto> data)\<rparr>))
      else (Inr False, st))"
  by pat_completeness auto
termination
  by (relation "measure (\<lambda>(i, retries, pid, data, st). retries - i)") auto

definition savePaste :: "string \<Rightarrow> paste \<Rightarrow> store \<Rightarrow> (error + bool) \<times> store" where
  "savePaste pid data st = savePaste_loop 0 3 pid data st"

function deletePaste_loop :: "nat \<Rightarrow> nat \<Rightarrow> string \<Rightarrow> store \<Rightarrow> bool \<times> store" where
  "deletePaste_loop i retries pid st =
     (if i < retries then
        (if redisReady st then
           (case redis_del (paste_key pid) st of
              (Inr u, st') \<Rightarrow> (True, st')
            | (Inl e, st') \<Rightarrow>
                if i = retries - 1 then (False, st')
                else deletePaste_loop (i + 1) retries pid st')
         else (True, st\<lparr>memoryStore := (memoryStore st)(pid := None)\<rparr>))
      else (False, st))"
  by pat_completeness auto
termination
  by (relation "measure (\<lambda>(i, retries, pid, st). retries - i)") auto

definition deletePaste :: "string \<Rightarrow> store \<Rightarrow> bool \<times> store" where
  "deletePaste pid st = deletePaste_loop 0 3 pid st"

function getPaste_loop :: "nat \<Rightarrow> nat \<Rightarrow> string \<Rightarrow> store \<Rightarrow> paste option \<times> store" where
  "getPaste_loop i retries pid st =
     (if i < retries then
        (if redisReady st then
           (case redis_get (paste_key pid) st of
              (Inr None, st') \<Rightarrow> (None, st')
            | (Inr (Some data), st') \<Rightarrow>
                if falsy data then (None, st')
                else (case JSON_parse data of
                        Some p \<Rightarrow> (Some p, st')
                      | None \<Rightarrow> (None, snd (deletePaste pid st')))
            | (Inl e, st') \<Rightarrow>
                if i = retries - 1 then (None, st')
                else getPaste_loop (i + 1) retries pid st')
         else (memoryStore st pid, st))
      else (None, st))"
  by pat_completeness auto
termination
  by (relation "measure (\<lambda>(i, retries, pid, st). retries - i)") auto

definition getPaste :: "string \<Rightarrow> store \<Rightarrow> paste option \<times> store" where
  "getPaste pid st = getPaste_loop 0 3 pid st"

section \<open>Paste lifecycle\<close>

subsection \<open>View decrement\<close>

text \<open>
  The object \<open>decrementViewsAtomic\<close> returns. A missing \<open>deleted\<close> property is
  \<open>False\<close>: the caller only tests \<open>!result.deleted\<close>. A failed call carries no paste,
  and its \<open>reason\<close> is read by no caller.
\<close>

record decrement_result =
  success :: bool
  result_paste :: "paste option"
  deleted :: bool

definition decrementViewsAtomic ::
  "string \<Rightarrow> paste \<Rightarrow> store \<Rightarrow> (error + decrement_result) \<times> store" where
  "decrementViewsAtomic pid paste st =
     (case remaining_views paste of
        None \<Rightarrow> (Inr \<lparr>success = True, result_paste = Some paste, deleted = False\<rparr>, st)
      | Some rv \<Rightarrow>
          if rv \<le> 0 then
            (Inr \<lparr>success = False, result_paste = None, deleted = False\<rparr>,
             snd (deletePaste pid st))
          else
            let paste' = paste\<lparr>remaining_views := Some (rv - 1)\<rparr> in
            if rv - 1 \<le> 0 then
              (Inr \<lparr>success = True, result_paste = Some paste', deleted = True\<rparr>,
               snd (deletePaste pid st))
            else
              (case savePaste pid paste' st of
                 (Inl e, st') \<Rightarrow> (Inl e, st')
               | (Inr b, st') \<Rightarrow>
                   (Inr \<lparr>success = True, result_paste = Some paste', deleted = False\<rparr>, st')))"

subsection \<open>Responses\<close>

text \<open>
  A response is a status code and a JSON object, kept as the list of its properties.
  \<open>JIso t\<close> is the string \<open>new Date(t).toISOString()\<close>, for a time \<open>t\<close> in the range
  of \<open>Date\<close>, as the times that \<open>Date.now()\<close> and a creation produce are.
\<close>

datatype json = JNull | JNum int | JStr string | JIso int

datatype response = Response (status: nat) (body: "(string \<times> json) list")

definition error_response :: "nat \<Rightarrow> string \<Rightarrow> response" where
  "error_response code msg = Response code [(''error'', JStr msg)]"

definition not_found :: response where
  "not_found = error_response 404 ''Paste not found''"

definition internal_error :: response where
  "internal_error = error_response 500 ''Internal server error''"

text \<open>\<open>t ? new Date(t).toISOString() : null\<close>: \<open>null\<close> and \<open>0\<close> are falsy.\<close>

definition iso_or_null :: "int option \<Rightarrow> json" where
  "iso_or_null t = (case t of None \<Rightarrow> JNull | Some v \<Rightarrow> if v = 0 then JNull else JIso v)"

definition num_or_null :: "int option \<Rightarrow> json" where
  "num_or_null t = (case t of None \<Rightarrow> JNull | Some v \<Rightarrow> JNum v)"

text \<open>
  \<open>text.replace(/c/g, r)\<close> for a one-character pattern, and \<open>escapeHtml\<close>, the five
  replacements in the order of the source.
\<close>

definition replace_all :: "char \<Rightarrow> string \<Rightarrow> string \<Rightarrow> string" where
  "replace_all c r txt = concat (map (\<lambda>x. if x = c then r else [x]) txt)"

definition escapeHtml :: "string \<Rightarrow> string" where
  "escapeHtml txt =
     replace_all (CHR 0x27) ''&#039;''
       (replace_all (CHR 0x22) ''&quot;''
         (replace_all CHR ''>'' ''&gt;''
           (replace_all CHR ''<'' ''&lt;''
             (replace_all CHR ''&'' ''&amp;'' txt))))"

subsection \<open>Counted fetch: \<open>GET /api/pastes/:id\<close>\<close>

text \<open>
  \<open>now\<close> is the value of \<open>getCurrentTime(req)\<close>, a finite one. The handler is split
  at its first \<open>await\<close>: \<open>fetchCounted_loaded\<close> is the code that runs once
  \<open>getPaste\<close> has answered. An exception (only \<open>savePaste\<close> throws) ends in the
  handler's \<open>catch\<close>.
\<close>

definition expired :: "paste \<Rightarrow> int \<Rightarrow> bool" where
  "expired paste now = (case expires_at paste of None \<Rightarrow> False | Some e \<Rightarrow> now \<ge> e)"

definition counted_response :: "paste \<Rightarrow> response" where
  "counted_response paste =
     Response 200
       [(''content'', JStr (content paste)),
        (''remaining_views'', num_or_null (remaining_views paste)),
        (''expires_at'', iso_or_null (expires_at paste))]"

definition fetchCounted_loaded :: "string \<Rightarrow> int \<Rightarrow> paste option \<Rightarrow> store \<Rightarrow> response \<times> store" where
  "fetchCounted_loaded pid now loaded st =
     (case loaded of
        None \<Rightarrow> (not_found, st)
      | Some paste \<Rightarrow>
          if expired paste now then (not_found, snd (deletePaste pid st))
          else
            (case decrementViewsAtomic pid paste st of
               (Inl e, st') \<Rightarrow> (internal_error, st')
             | (Inr result, st') \<Rightarrow>
                 if \<not> success result then (not_found, st')
                 else
                   let p = the (result_paste result);
                       p' = p\<lparr>view_count := view_count p + 1\<rparr>
                   in if \<not> deleted result then
                        (case savePaste pid p' st' of
                           (Inl e, st'') \<Rightarrow> (internal_error, st'')
                         | (Inr b, st'') \<Rightarrow> (counted_response p', st''))
                      else (counted_response p', st')))"

definition fetchCounted :: "string \<Rightarrow> int \<Rightarrow> store \<Rightarrow> response \<times> store" where
  "fetchCounted pid now st =
     (if pid = [] then (not_found, st)
      else if length pid > 100 then (not_found, st)
      else (case getPaste pid st of (loaded, st') \<Rightarrow> fetchCounted_loaded pid now loaded st'))"

subsection \<open>Metadata fetch: \<open>GET /api/pastes/:id/metadata\<close>\<close>

definition metadata_response :: "paste \<Rightarrow> response" where
  "metadata_response paste =
     Response 200
       [(''content'', JStr (escapeHtml (content paste))),
        (''remaining_views'', num_or_null (remaining_views paste)),
        (''expires_at'', iso_or_null (expires_at paste)),
        (''created_at'', iso_or_null (Some (created_at paste)))]"

definition exhausted :: "paste \<Rightarrow> bool" where
  "exhausted paste = (case remaining_views paste of None \<Rightarrow> False | Some rv \<Rightarrow> rv \<le> 0)"

definition fetchMetadata_loaded :: "string \<Rightarrow> int \<Rightarrow> paste option \<Rightarrow> store \<Rightarrow> response \<times> store" where
  "fetchMetadata_loaded pid now loaded st =
     (case loaded of
        None \<Rightarrow> (not_found, st)
      | Some paste \<Rightarrow>
          if expired paste now then (not_found, snd (deletePaste pid st))
          else if exhausted paste then (not_found, snd (deletePaste pid st))
          else (metadata_response paste, st))"

definition fetchMetadata :: "string \<Rightarrow> int \<Rightarrow> store \<Rightarrow> response \<times> store" where
  "fetchMetadata pid now st =
     (if pid = [] \<or> length pid > 100 then (not_found, st)
      else (case getPaste pid st of (loaded, st') \<Rightarrow> fetchMetadata_loaded pid now loaded st'))"

subsection \<open>Creation: \<open>POST /api/pastes\<close>\<close>

text \<open>
  A property of the request body is any JSON value, or \<open>Undefined\<close> when it is missing.
  \<open>NonInteger\<close> is a number on which \<open>Number.isInteger\<close> is false; the handler never
  compares such a number. \<open>Object\<close> stands for arrays and objects.
\<close>

datatype jsnumber = Integer int | NonInteger

datatype jsvalue = Undefined | Null | Boolean bool | Number jsnumber | String string | Object

record create_body =
  body_content :: jsvalue
  body_ttl_seconds :: jsvalue
  body_max_views :: jsvalue

definition trim :: "string \<Rightarrow> string" where
  "trim s = rev (dropWhile isWhiteSpace (rev (dropWhile isWhiteSpace s)))"

text \<open>The checks of the handler, in its order; \<open>Some msg\<close> is the 400 response's message.\<close>

definition validate_ttl_seconds :: "jsvalue \<Rightarrow> string option" where
  "validate_ttl_seconds v =
     (case v of
        Undefined \<Rightarrow> None
      | Null \<Rightarrow> None
      | Number n \<Rightarrow>
          (case n of
             NonInteger \<Rightarrow> Some ''ttl_seconds must be an integer''
           | Integer t \<Rightarrow>
               if t < 1 then Some ''ttl_seconds must be >= 1''
               else if t > 365 * 24 * 60 * 60 then Some ''ttl_seconds cannot exceed 1 year''
               else None)
      | _ \<Rightarrow> Some ''ttl_seconds must be a number'')"

definition validate_max_views :: "jsvalue \<Rightarrow> string option" where
  "validate_max_views v =
     (case v of
        Undefined \<Rightarrow> None
      | Null \<Rightarrow> None
      | Number n \<Rightarrow>
          (case n of
             NonInteger \<Rightarrow> Some ''max_views must be an integer''
           | Integer m \<Rightarrow>
               if m < 1 then Some ''max_views must be >= 1''
               else if m > 1000000 then Some ''max_views cannot exceed 1,000,000''
               else None)
      | _ \<Rightarrow> Some ''max_views must be a number'')"

definition validate :: "create_body \<Rightarrow> string option" where
  "validate b =
     (case body_content b of
        Undefined \<Rightarrow> Some ''content is required''
      | Null \<Rightarrow> Some ''content is required''
      | String c \<Rightarrow>
          if trim c = [] then Some ''content cannot be empty''
          else if length c > 10 * 1024 * 1024 then Some ''content exceeds maximum size of 10MB''
          else (case validate_ttl_seconds (body_ttl_seconds b) of
                  Some msg \<Rightarrow> Some msg
                | None \<Rightarrow> validate_max_views (body_max_views b))
      | _ \<Rightarrow> Some ''content must be a string'')"

text \<open>
  The \<open>do ... while\<close> loop that draws identifiers. \<open>nanoid k\<close> is the value of the
  \<open>k\<close>-th call \<open>nanoid(10)\<close> of this request (counted from 0). The result is the last
  identifier drawn and the final value of \<open>attempts\<close>.
\<close>

definition maxAttempts :: nat where
  "maxAttempts = 10"

function allocate_id :: "nat \<Rightarrow> (nat \<Rightarrow> string) \<Rightarrow> store \<Rightarrow> (string \<times> nat) \<times> store" where
  "allocate_id attempts nanoid st =
     (case getPaste (nanoid attempts) st of
        (None, st') \<Rightarrow> ((nanoid attempts, attempts), st')
      | (Some existing, st') \<Rightarrow>
          if attempts + 1 < maxAttempts then allocate_id (attempts + 1) nanoid st'
          else ((nanoid attempts, attempts + 1), st'))"
  by pat_completeness auto
termination
  by (relation "measure (\<lambda>(attempts, nanoid, st). maxAttempts - attempts)") auto

text \<open>
  \<open>ttl_seconds ? createdAt + ttl_seconds * 1000 : null\<close> and \<open>max_views || null\<close> on a
  value that has passed the checks: it is \<open>undefined\<close>, \<open>null\<close> or an integer.
\<close>

definition truthy_integer :: "jsvalue \<Rightarrow> int option" where
  "truthy_integer v = (case v of Number (Integer n) \<Rightarrow> if n = 0 then None else Some n | _ \<Rightarrow> None)"

definition pasteData :: "create_body \<Rightarrow> int \<Rightarrow> paste" where
  "pasteData b createdAt =
     \<lparr>content = (case body_content b of String c \<Rightarrow> c | _ \<Rightarrow> []),
      created_at = createdAt,
      expires_at = map_option (\<lambda>t. createdAt + t * 1000) (truthy_integer (body_ttl_seconds b)),
      max_views = truthy_integer (body_max_views b),
      remaining_views = truthy_integer (body_max_views b),
      view_count = 0\<rparr>"

text \<open>
  \<open>Date_now\<close> is the value of \<open>Date.now()\<close> and \<open>baseUrl\<close> the base address the
  handler derives from its configuration or from the \<open>Host\<close> header.
\<close>

definition createPaste ::
  "create_body \<Rightarrow> (nat \<Rightarrow> string) \<Rightarrow> int \<Rightarrow> string \<Rightarrow> store \<Rightarrow> response \<times> store" where
  "createPaste b nanoid Date_now baseUrl st =
     (case validate b of
        Some msg \<Rightarrow> (error_response 400 msg, st)
      | None \<Rightarrow>
          (case allocate_id 0 nanoid st of
             ((pid, attempts), st') \<Rightarrow>
               if attempts = maxAttempts then
                 (error_response 500 ''Failed to generate unique ID'', st')
               else
                 (case savePaste pid (pasteData b Date_now) st' of
                    (Inl e, st'') \<Rightarrow> (internal_error, st'')
                  | (Inr ok, st'') \<Rightarrow>
                      (Response 201 [(''id'', JStr pid), (''url'', JStr (baseUrl @ ''/p/'' @ pid))],
                       st''))))"

subsection \<open>Two counted fetches in flight\<close>

text \<open>
  A request suspends at an \<open>await\<close> and another request may run in between. The counted
  fetch is taken in two steps, before and after its first \<open>await\<close>; the steps of two
  requests are interleaved by a schedule.
\<close>

datatype task = Start | Loaded "paste option" | Finished response

fun task_step :: "string \<Rightarrow> int \<Rightarrow> task \<Rightarrow> store \<Rightarrow> task \<times> store" where
  "task_step pid now Start st =
     (if pid = [] then (Finished not_found, st)
      else if length pid > 100 then (Finished not_found, st)
      else (case getPaste pid st of (loaded, st') \<Rightarrow> (Loaded loaded, st')))"
| "task_step pid now (Loaded loaded) st =
     (case fetchCounted_loaded pid now loaded st of (r, st') \<Rightarrow> (Finished r, st'))"
| "task_step pid now (Finished r) st = (Finished r, st)"

datatype request = A | B

fun run :: "request list \<Rightarrow> string \<Rightarrow> int \<Rightarrow> task \<times> task \<times> store \<Rightarrow> task \<times> task \<times> store" where
  "run [] pid now cfg = cfg"
| "run (A # sched) pid now (ta, tb, st) =
     (case task_step pid now ta st of (ta', st') \<Rightarrow> run sched pid now (ta', tb, st'))"
| "run (B # sched) pid now (ta, tb, st) =
     (case task_step pid now tb st of (tb', st') \<Rightarrow> run sched pid now (ta, tb', st'))"

section \<open>Notions used in the statements\<close>

text \<open>
  The record that the active backend holds for an identifier: what a load that meets no
  failure returns.
\<close>

definition record_at :: "store \<Rightarrow> string \<Rightarrow> paste option" where
  "record_at st pid =
     (if redisReady st then
        (case redis st (paste_key pid) of
           Some (Stringified p) \<Rightarrow> Some p
         | _ \<Rightarrow> None)
      else memoryStore st pid)"

text \<open>The state after an adapter call that meets no failure.\<close>

definition put :: "string \<Rightarrow> paste \<Rightarrow> store \<Rightarrow> store" where
  "put pid data st =
     (if redisReady st then st\<lparr>redis := (redis st)(paste_key pid \<mapsto> Stringified data)\<rparr>
      else st\<lparr>memoryStore := (memoryStore st)(pid \<mapsto> data)\<rparr>)"

definition remove :: "string \<Rightarrow> store \<Rightarrow> store" where
  "remove pid st =
     (if redisReady st then st\<lparr>redis := (redis st)(paste_key pid := None)\<rparr>
      else st\<lparr>memoryStore := (memoryStore st)(pid := None)\<rparr>)"

definition corrupt_at :: "store \<Rightarrow> string \<Rightarrow> bool" where
  "corrupt_at st pid =
     (redisReady st \<and>
      (case redis st (paste_key pid) of
         Some d \<Rightarrow> \<not> falsy d \<and> JSON_parse d = None
       | None \<Rightarrow> False))"

definition scrub :: "string \<Rightarrow> store \<Rightarrow> store" where
  "scrub pid st = (if corrupt_at st pid then remove pid st else st)"

text \<open>The record after one more counted view.\<close>

definition viewed :: "paste \<Rightarrow> paste" where
  "viewed p =
     p\<lparr>remaining_views := map_option (\<lambda>rv. rv - 1) (remaining_views p),
       view_count := view_count p + 1\<rparr>"

definition valid_id :: "string \<Rightarrow> bool" where
  "valid_id pid \<longleftrightarrow> pid \<noteq> [] \<and> length pid \<le> 100"

text \<open>Counted fetches one after the other, the \<open>k\<close>-th at the \<open>k\<close>-th time of the list.\<close>

fun fetchCounted_seq :: "string \<Rightarrow> int list \<Rightarrow> store \<Rightarrow> response list \<times> store" where
  "fetchCounted_seq pid [] st = ([], st)"
| "fetchCounted_seq pid (now # nows) st =
     (case fetchCounted pid now st of
        (r, st') \<Rightarrow> (case fetchCounted_seq pid nows st' of (rs, st'') \<Rightarrow> (r # rs, st'')))"

text \<open>
  The creation requests the specification calls valid: the content is a string that is
  not empty after trimming and not longer than 10 MiB; \<open>ttlSeconds\<close>, if present, is an
  integer in \<open>[1, 31536000]\<close>; \<open>maxViews\<close>, if present, is an integer in
  \<open>[1, 1000000]\<close>. A property that is missing or \<open>null\<close> is not present.
\<close>

definition present :: "jsvalue \<Rightarrow> bool" where
  "present v \<longleftrightarrow> v \<noteq> Undefined \<and> v \<noteq> Null"

definition integer_in :: "jsvalue \<Rightarrow> int \<Rightarrow> int \<Rightarrow> bool" where
  "integer_in v lo hi \<longleftrightarrow> (\<exists>n. v = Number (Integer n) \<and> lo \<le> n \<and> n \<le> hi)"

definition valid_request_spec :: "create_body \<Rightarrow> bool" where
  "valid_request_spec b \<longleftrightarrow>
     (\<exists>c. body_content b = String c \<and> trim c \<noteq> [] \<and> length c \<le> 10485760) \<and>
     (present (body_ttl_seconds b) \<longrightarrow> integer_in (body_ttl_seconds b) 1 31536000) \<and>
     (present (body_max_views b) \<longrightarrow> integer_in (body_max_views b) 1 1000000)"

text \<open>
  No stored record is exhausted, and requests served one after the other: a creation with
  its identifier draws, its clock value and its base address, a counted fetch and a
  metadata fetch with their identifier and time.
\<close>

definition positive_views :: "store \<Rightarrow> bool" where
  "positive_views st \<longleftrightarrow> (\<forall>q p. record_at st q = Some p \<longrightarrow> \<not> exhausted p)"

datatype call =
    Create create_body "nat \<Rightarrow> string" int string
  | Counted string int
  | Metadata string int

fun call_step :: "call \<Rightarrow> store \<Rightarrow> response \<times> store" where
  "call_step (Create b nanoid Date_now baseUrl) st = createPaste b nanoid Date_now baseUrl st"
| "call_step (Counted pid now) st = fetchCounted pid now st"
| "call_step (Metadata pid now) st = fetchMetadata pid now st"

fun calls :: "call list \<Rightarrow> store \<Rightarrow> store" where
  "calls [] st = st"
| "calls (c # cs) st = calls cs (snd (call_step c st))"

text \<open>The five characters \<open>escapeHtml\<close> replaces.\<close>

definition html_special :: "char set" where
  "html_special = {CHR ''&'', CHR ''<'', CHR ''>'', CHR 0x22, CHR 0x27}"

text \<open>Sample inputs, for evaluating the handlers.\<close>

definition sample_nanoid :: "nat \<Rightarrow> string" where
  "sample_nanoid k = ''V1StGXR8_Z''"

definition empty_store :: "bool \<Rightarrow> store" where
  "empty_store ready = \<lparr>redisReady = ready, redis = Map.empty, memoryStore = Map.empty, faults = []\<rparr>"

definition sample_body :: "string \<Rightarrow> jsvalue \<Rightarrow> jsvalue \<Rightarrow> create_body" where
  "sample_body c ttl mv = \<lparr>body_content = String c, body_ttl_seconds = ttl, body_max_views = mv\<rparr>"

definition sample_paste :: "int option \<Rightarrow> int option \<Rightarrow> paste" where
  "sample_paste e rv =
     \<lparr>content = ''hello'', created_at = 0, expires_at = e, max_views = Some 5,
      remaining_views = rv, view_count = 0\<rparr>"

definition failing_store :: store where
  "failing_store =
     \<lparr>redisReady = True,
      redis = [paste_key ''V1StGXR8_Z'' \<mapsto> Stringified (sample_paste (Some 1000) (Some 3))],
      memoryStore = Map.empty,
      faults = [False, True, True, True]\<rparr>"

definition corrupt_store :: store where
  "corrupt_store =
     \<lparr>redisReady = True,
      redis = [paste_key ''V1StGXR8_Z'' \<mapsto> Malformed ''{oops''],
      memoryStore = Map.empty,
      faults = []\<rparr>"

definition race_store :: store where
  "race_store =
     \<lparr>redisReady = True,
      redis = [paste_key ''V1StGXR8_Z'' \<mapsto> Stringified (sample_paste None (Some 1))],
      memoryStore = Map.empty,
      faults = []\<rparr>"

definition empty_payload_store :: store where
  "empty_payload_store =
     \<lparr>redisReady = True,
      redis = [paste_key ''V1StGXR8_Z'' \<mapsto> Malformed []],
      memoryStore = Map.empty,
      faults = []\<rparr>"

text \<open>An override of 310 digits.\<close>

definition long_override :: string where
  "long_override = ''1000000000000000000000000000000000000000000000000000000000000000000000000000000000000000000000000000000000000000000000000000000000000000000000000000000000000000000000000000000000000000000000000000000000000000000000000000000000000000000000000000000000000000000000000000000000000000000000000000000000000000000000''"

section \<open>The clock\<close>

declare width.simps [simp del]

lemma width_0 [simp]: "width 0 = 0"
  by (simp add: width.simps [of 0])

lemma width_le: "width n \<le> k \<longleftrightarrow> n < 2 ^ k"
proof (induction k arbitrary: n)
  case 0
  show ?case by (simp add: width.simps [of n])
next
  case (Suc k)
  show ?case
  proof (cases "n = 0")
    case True
    then show ?thesis by simp
  next
    case False
    have "n div 2 < 2 ^ k \<longleftrightarrow> n < 2 * 2 ^ k" by auto
    with False Suc [of "n div 2"] show ?thesis
      by (simp add: width.simps [of n])
  qed
qed

lemma toDouble_exact: "m < 2 ^ 53 \<Longrightarrow> toDouble m = Some m"
  by (simp add: toDouble_def width_le)

lemma width_eq: "2 ^ k \<le> n \<Longrightarrow> n < 2 ^ Suc k \<Longrightarrow> width n = Suc k"
  using width_le [of n k] width_le [of n "Suc k"] by simp

lemma toDouble_tie: "toDouble 9007199254740993 = Some 9007199254740992"
proof -
  have "width 9007199254740993 = Suc 53"
    by (rule width_eq) simp_all
  then show ?thesis
    by (simp add: toDouble_def Let_def)
qed

lemmas parse_eval = parseInt10_def leading_digits_def strip_sign_def isWhiteSpace_def isDigit_def
  digitsValue_def digitValue_def

lemma parseInt10_empty: "parseInt10 [] = NaN"
  by (simp add: parse_eval)

text \<open>
  What \<open>parseInt\<close> accepts: leading blanks and trailing text do not make a value
  unparsable, only the absence of a leading digit does; above \<open>2^53\<close> the value read is
  the nearest double.
\<close>

lemma parseInt10_examples:
  "parseInt10 ''61000'' = Finite 61000"
  "parseInt10 ''  42'' = Finite 42"
  "parseInt10 ''12abc'' = Finite 12"
  "parseInt10 ''1.5'' = Finite 1"
  "parseInt10 ''0x10'' = Finite 0"
  "parseInt10 ''-7'' = Finite (- 7)"
  "parseInt10 ''soon'' = NaN"
  by (simp_all add: parse_eval toDouble_exact)

lemma parseInt10_rounds: "parseInt10 ''9007199254740993'' = Finite 9007199254740992"
  by (simp add: parse_eval toDouble_tie)

lemma digit_not_blank: "isDigit c \<Longrightarrow> \<not> isWhiteSpace c"
  by (auto simp add: isDigit_def isWhiteSpace_def)

lemma digit_not_sign: "isDigit c \<Longrightarrow> c \<noteq> CHR ''-'' \<and> c \<noteq> CHR ''+''"
  by (auto simp add: isDigit_def)

lemma parseInt10_digits:
  assumes "s \<noteq> []" "\<forall>c \<in> set s. isDigit c" "digitsValue s < 2 ^ 53"
  shows "parseInt10 s = Finite (int (digitsValue s))"
proof -
  from assms(1) obtain c r where s: "s = c # r" by (cases s) auto
  with assms(2) have c: "isDigit c" by simp
  have d: "dropWhile isWhiteSpace s = s"
    using s digit_not_blank [OF c] by simp
  have g: "strip_sign s = (1, s)"
    using s digit_not_sign [OF c] by (simp add: strip_sign_def)
  have l: "leading_digits s = s"
    using assms(2) by (simp add: leading_digits_def d g takeWhile_eq_all_conv)
  show ?thesis
    using assms(1,3) by (simp add: parseInt10_def l d g toDouble_exact)
qed


lemma toDouble_overflow:
  assumes "2 ^ 1024 \<le> m"
  shows "toDouble m = None"
proof -
  let ?w = "width m"
  from assms have "\<not> m < 2 ^ 1024" by simp
  then have w: "1024 < ?w" using width_le [of m 1024] by simp
  have "\<not> ?w \<le> ?w - 1" using w by simp
  then have low: "2 ^ (?w - 1) \<le> m" using width_le [of m "?w - 1"] by simp
  let ?e = "?w - 53"
  let ?q = "m div 2 ^ ?e"
  have "?w - 1 = 52 + ?e" using w by simp
  then have "(2::nat) ^ (?w - 1) = 2 ^ (52 + ?e)" by (rule arg_cong)
  then have split: "(2::nat) ^ (?w - 1) = 2 ^ 52 * 2 ^ ?e"
    by (simp only: power_add)
  have "2 ^ 52 * 2 ^ ?e div 2 ^ ?e \<le> ?q"
    using low unfolding split by (rule div_le_mono)
  then have q: "2 ^ 52 \<le> ?q" by simp
  have "(2::nat) ^ 1024 \<le> 2 ^ (?w - 1)"
    using w by (intro power_increasing) simp_all
  also have "\<dots> = 2 ^ 52 * 2 ^ ?e" by (rule split)
  also have "\<dots> \<le> ?q * 2 ^ ?e" using q by simp
  finally have big: "2 ^ 1024 \<le> ?q * 2 ^ ?e" .
  then have "2 ^ 1024 \<le> (?q + 1) * 2 ^ ?e" by simp
  with big w show ?thesis
    by (simp add: toDouble_def Let_def)
qed

lemma parseInt10_infinite: "parseInt10 long_override = PlusInfinity"
proof -
  have "toDouble (digitsValue long_override) = None"
    by (rule toDouble_overflow) (simp add: long_override_def digitsValue_def digitValue_def)
  then show ?thesis
    by (simp add: long_override_def parseInt10_def leading_digits_def strip_sign_def
        isWhiteSpace_def isDigit_def)
qed

lemma parseInt10_NaN: "parseInt10 s = NaN \<longleftrightarrow> leading_digits s = []"
  by (simp add: parseInt10_def Let_def split: option.splits)

text \<open>
  Claim C7, as stated, fails. An override with text after its digits is not answered
  with the wall-clock time but with the integer in front, and an override above \<open>2^53\<close>
  is not returned as it is but rounded to the nearest double.
\<close>

theorem getCurrentTime_malformed_counterexample:
  "getCurrentTime True (Some ''12abc'') 1700000000000 = Finite 12 \<and>
   getCurrentTime True (Some ''1.5'') 1700000000000 = Finite 1 \<and>
   getCurrentTime True (Some ''9007199254740993'') 1700000000000 = Finite 9007199254740992 \<and>
   Finite 12 \<noteq> Finite 1700000000000 \<and>
   Finite 9007199254740992 \<noteq> Finite 9007199254740993"
  by (simp add: getCurrentTime_def parseInt10_examples parseInt10_rounds)

text \<open>
  Claim C7, amended. In test mode, when \<open>parseInt\<close> reads a number from the override
  that is not negative, that number is the time returned: the integer of the leading
  digits, rounded to a double, or Infinity; an override that is a plain string of digits
  with a value below \<open>2^53\<close> is returned as it is. With no override, an empty one, one
  with no leading digit, or a negative one, the wall-clock time is returned. The function
  has no failing branch: its result is always one of these two.
\<close>

theorem getCurrentTime_override:
  "(hdr = Some s \<and> parseInt10 s = Finite n \<and> 0 \<le> n \<longrightarrow>
      getCurrentTime True hdr wall = Finite n) \<and>
   (hdr = Some s \<and> parseInt10 s = PlusInfinity \<longrightarrow>
      getCurrentTime True hdr wall = PlusInfinity) \<and>
   (hdr = Some s \<and> s \<noteq> [] \<and> (\<forall>c \<in> set s. isDigit c) \<and> digitsValue s < 2 ^ 53 \<longrightarrow>
      getCurrentTime True hdr wall = Finite (int (digitsValue s))) \<and>
   (hdr = None \<or> hdr = Some [] \<longrightarrow> getCurrentTime True hdr wall = Finite wall) \<and>
   (hdr = Some s \<and> leading_digits s = [] \<longrightarrow> getCurrentTime True hdr wall = Finite wall) \<and>
   (hdr = Some s \<and> negative (parseInt10 s) \<longrightarrow> getCurrentTime True hdr wall = Finite wall) \<and>
   (getCurrentTime True hdr wall = Finite wall \<or>
    (\<exists>t. hdr = Some t \<and> getCurrentTime True hdr wall = parseInt10 t \<and>
         leading_digits t \<noteq> [] \<and> \<not> negative (parseInt10 t)))"
proof (cases hdr)
  case None
  then show ?thesis by (simp add: getCurrentTime_def)
next
  case (Some t)
  show ?thesis
  proof (cases "t = []")
    case True
    with Some show ?thesis
      by (auto simp add: getCurrentTime_def parseInt10_empty)
  next
    case False
    have d: "parseInt10 s = Finite (int (digitsValue s))"
      if "s \<noteq> []" "\<forall>c \<in> set s. isDigit c" "digitsValue s < 2 ^ 53"
      using that by (rule parseInt10_digits)
    from Some False d show ?thesis
      by (auto simp add: getCurrentTime_def Let_def parseInt10_NaN)
  qed
qed

theorem getCurrentTime_override_witness:
  "getCurrentTime True (Some ''61000'') 5 = Finite 61000 \<and>
   getCurrentTime True (Some long_override) 5 = PlusInfinity \<and>
   getCurrentTime True None 5 = Finite 5 \<and>
   getCurrentTime True (Some ''soon'') 5 = Finite 5 \<and>
   getCurrentTime True (Some ''-7'') 5 = Finite 5"
proof -
  have a: "parseInt10 ''61000'' = Finite 61000" and c: "parseInt10 ''-7'' = Finite (- 7)"
    by (simp_all add: parseInt10_examples)
  have b: "leading_digits ''soon'' = []"
    by (simp add: leading_digits_def strip_sign_def isWhiteSpace_def isDigit_def)
  show ?thesis
    using getCurrentTime_override [of "Some ''61000''" "''61000''" 61000 5]
      getCurrentTime_override [of "Some long_override" long_override 0 5]
      getCurrentTime_override [of None "[]" 0 5]
      getCurrentTime_override [of "Some ''soon''" "''soon''" 0 5]
      getCurrentTime_override [of "Some ''-7''" "''-7''" 0 5]
      a b c parseInt10_infinite
    by simp
qed

section \<open>Adapter calls and handlers on a backend that does not fail\<close>

declare savePaste_loop.simps [simp del] deletePaste_loop.simps [simp del]
  getPaste_loop.simps [simp del] allocate_id.simps [simp del]

lemma next_fault_nil: "faults st = [] \<Longrightarrow> next_fault st = (False, st)"
  by (simp add: next_fault_def)

lemma paste_key_inj: "paste_key p = paste_key q \<longleftrightarrow> p = q"
  by (simp add: paste_key_def)

lemma deletePaste_nofault: "faults st = [] \<Longrightarrow> deletePaste pid st = (True, remove pid st)"
  by (simp add: deletePaste_def deletePaste_loop.simps [of 0] redis_del_def next_fault_nil remove_def)

lemma savePaste_nofault: "faults st = [] \<Longrightarrow> savePaste pid d st = (Inr True, put pid d st)"
  by (simp add: savePaste_def savePaste_loop.simps [of 0] redis_set_def next_fault_nil put_def JSON_stringify_def)

lemma getPaste_nofault: "faults st = [] \<Longrightarrow> getPaste pid st = (record_at st pid, scrub pid st)"
  by (auto simp add: getPaste_def getPaste_loop.simps [of 0] redis_get_def next_fault_nil
      record_at_def scrub_def corrupt_at_def deletePaste_nofault split: option.splits payload.splits)

lemma faults_put [simp]: "faults (put pid d st) = faults st"
  and faults_remove [simp]: "faults (remove pid st) = faults st"
  and faults_scrub [simp]: "faults (scrub pid st) = faults st"
  and ready_put [simp]: "redisReady (put pid d st) = redisReady st"
  and ready_remove [simp]: "redisReady (remove pid st) = redisReady st"
  and ready_scrub [simp]: "redisReady (scrub pid st) = redisReady st"
  by (simp_all add: put_def remove_def scrub_def)

lemma record_at_put [simp]: "record_at (put pid d st) q = (if q = pid then Some d else record_at st q)"
  by (simp add: record_at_def put_def paste_key_inj)

lemma record_at_remove [simp]: "record_at (remove pid st) q = (if q = pid then None else record_at st q)"
  by (simp add: record_at_def remove_def paste_key_inj)

lemma record_at_scrub [simp]: "record_at (scrub pid st) q = record_at st q"
  by (auto simp add: scrub_def record_at_def corrupt_at_def remove_def paste_key_inj split: option.splits payload.splits)

lemma scrub_id: "record_at st pid = Some p \<Longrightarrow> scrub pid st = st"
  by (auto simp add: scrub_def record_at_def corrupt_at_def split: option.splits payload.splits if_splits)


lemma put_put: "put pid a (put pid b st) = put pid a st"
  by (simp add: put_def)

lemma viewed_unlimited:
  "remaining_views p = None \<Longrightarrow> viewed p = p\<lparr>view_count := view_count p + 1\<rparr>"
  by (cases p) (simp add: viewed_def)

lemma viewed_limited:
  "remaining_views p = Some rv \<Longrightarrow>
   viewed p = p\<lparr>remaining_views := Some (rv - 1), view_count := view_count p + 1\<rparr>"
  by (simp add: viewed_def)

lemma fetchCounted_loaded_nofault:
  assumes "faults st = []"
  shows "fetchCounted_loaded pid now (Some p) st =
     (if expired p now then (not_found, remove pid st)
      else (case remaining_views p of
              None \<Rightarrow> (counted_response (viewed p), put pid (viewed p) st)
            | Some rv \<Rightarrow>
                if rv \<le> 0 then (not_found, remove pid st)
                else if rv = 1 then (counted_response (viewed p), remove pid st)
                else (counted_response (viewed p), put pid (viewed p) st)))"
  using assms
  by (auto simp add: fetchCounted_loaded_def decrementViewsAtomic_def deletePaste_nofault
      savePaste_nofault viewed_unlimited viewed_limited Let_def put_put split: option.splits)

lemma fetchCounted_nofault:
  assumes "faults st = []" "valid_id pid"
  shows "fetchCounted pid now st =
     (case record_at st pid of
        None \<Rightarrow> (not_found, scrub pid st)
      | Some p \<Rightarrow> fetchCounted_loaded pid now (Some p) st)"
  using assms
  by (auto simp add: fetchCounted_def valid_id_def getPaste_nofault fetchCounted_loaded_def scrub_id
      split: option.splits)

lemma fetchMetadata_nofault:
  assumes "faults st = []" "valid_id pid"
  shows "fetchMetadata pid now st =
     (case record_at st pid of
        None \<Rightarrow> (not_found, scrub pid st)
      | Some p \<Rightarrow>
          if expired p now \<or> exhausted p then (not_found, remove pid st)
          else (metadata_response p, st))"
  using assms
  by (auto simp add: fetchMetadata_def valid_id_def getPaste_nofault fetchMetadata_loaded_def scrub_id
      deletePaste_nofault split: option.splits)

lemma expired_viewed [simp]: "expired (viewed p) now = expired p now"
  by (simp add: expired_def viewed_def)

lemma content_viewed [simp]: "content (viewed p) = content p"
  by (simp add: viewed_def)

lemma counted_response_ok:
  "status (counted_response p) = 200 \<and> map_of (body (counted_response p)) ''content'' = Some (JStr (content p))"
  by (simp add: counted_response_def)

lemma fetchCounted_seq_budget:
  assumes "faults st = []" "valid_id pid" "record_at st pid = Some p"
    "remaining_views p = Some (int (length nows))" "nows \<noteq> []"
    "\<forall>now \<in> set nows. \<not> expired p now"
  shows "\<exists>rs st'. fetchCounted_seq pid nows st = (rs, st') \<and> length rs = length nows \<and>
           (\<forall>r \<in> set rs. status r = 200 \<and> map_of (body r) ''content'' = Some (JStr (content p))) \<and>
           faults st' = [] \<and> record_at st' pid = None"
  using assms
proof (induction nows arbitrary: st p)
  case Nil
  then show ?case by simp
next
  case (Cons now nows)
  show ?case
  proof (cases "nows = []")
    case True
    with Cons.prems show ?thesis
      by (simp add: fetchCounted_nofault fetchCounted_loaded_nofault counted_response_ok)
  next
    case False
    let ?st = "put pid (viewed p) st"
    from False have len: "length nows \<ge> 1" by (cases nows) auto
    from Cons.prems len False have step: "fetchCounted pid now st = (counted_response (viewed p), ?st)"
      by (simp add: fetchCounted_nofault fetchCounted_loaded_nofault)
    have "\<exists>rs st'. fetchCounted_seq pid nows ?st = (rs, st') \<and> length rs = length nows \<and>
           (\<forall>r \<in> set rs. status r = 200 \<and> map_of (body r) ''content'' = Some (JStr (content (viewed p)))) \<and>
           faults st' = [] \<and> record_at st' pid = None"
      using Cons.prems False
      by (intro Cons.IH) (simp_all add: viewed_def expired_def)
    then obtain rs st' where rest: "fetchCounted_seq pid nows ?st = (rs, st')" "length rs = length nows"
      "\<forall>r \<in> set rs. status r = 200 \<and> map_of (body r) ''content'' = Some (JStr (content p))"
      "faults st' = []" "record_at st' pid = None"
      by auto
    with step show ?thesis
      by (simp add: counted_response_ok)
  qed
qed


lemma allocate_id_nofault:
  "faults st = [] \<Longrightarrow> allocate_id k nanoid st = ((pid, a), st') \<Longrightarrow>
   faults st' = [] \<and> redisReady st' = redisReady st \<and> (\<forall>q. record_at st' q = record_at st q) \<and>
   (\<exists>j. pid = nanoid j) \<and> (a < maxAttempts \<longrightarrow> pid = nanoid a \<and> record_at st pid = None)"
proof (induction k nanoid st rule: allocate_id.induct)
  case (1 attempts nanoid st)
  show ?case
  proof (cases "record_at st (nanoid attempts)")
    case None
    with "1.prems" show ?thesis
      by (auto simp add: allocate_id.simps [of attempts] getPaste_nofault)
  next
    case (Some existing)
    show ?thesis
    proof (cases "attempts + 1 < maxAttempts")
      case True
      have g: "getPaste (nanoid attempts) st = (Some existing, st)"
        using "1.prems"(1) Some by (simp add: getPaste_nofault scrub_id)
      from "1.prems"(2) g True have "allocate_id (attempts + 1) nanoid st = ((pid, a), st')"
        by (simp add: allocate_id.simps [of attempts])
      with "1.IH" [OF g [symmetric] refl True "1.prems"(1)] show ?thesis
        by auto
    next
      case False
      with "1.prems" Some show ?thesis
        by (auto simp add: allocate_id.simps [of attempts] getPaste_nofault scrub_id)
    qed
  qed
qed

lemma allocate_id_finds:
  "faults st = [] \<Longrightarrow> k \<le> j \<Longrightarrow> j < maxAttempts \<Longrightarrow> record_at st (nanoid j) = None \<Longrightarrow>
   snd (fst (allocate_id k nanoid st)) < maxAttempts"
proof (induction k nanoid st rule: allocate_id.induct)
  case (1 attempts nanoid st)
  show ?case
  proof (cases "record_at st (nanoid attempts)")
    case None
    with "1.prems" show ?thesis
      by (simp add: allocate_id.simps [of attempts] getPaste_nofault)
  next
    case (Some existing)
    have g: "getPaste (nanoid attempts) st = (Some existing, st)"
      using "1.prems"(1) Some by (simp add: getPaste_nofault scrub_id)
    from Some "1.prems" have ne: "attempts \<noteq> j" by auto
    with "1.prems" have lt: "attempts + 1 < maxAttempts" "attempts + 1 \<le> j" by auto
    from "1.IH" [OF g [symmetric] refl lt(1) "1.prems"(1) lt(2) "1.prems"(3) "1.prems"(4)] g lt
    show ?thesis
      by (simp add: allocate_id.simps [of attempts])
  qed
qed

lemma validate_ttl_spec:
  "validate_ttl_seconds v = None \<longleftrightarrow> (present v \<longrightarrow> integer_in v 1 31536000)"
  by (cases v) (auto simp add: validate_ttl_seconds_def present_def integer_in_def split: jsnumber.splits)

lemma validate_max_views_spec:
  "validate_max_views v = None \<longleftrightarrow> (present v \<longrightarrow> integer_in v 1 1000000)"
  by (cases v) (auto simp add: validate_max_views_def present_def integer_in_def split: jsnumber.splits)

lemma validate_spec: "validate b = None \<longleftrightarrow> valid_request_spec b"
  using validate_ttl_spec [of "body_ttl_seconds b"] validate_max_views_spec [of "body_max_views b"]
  by (cases "body_content b")
    (auto simp add: validate_def valid_request_spec_def split: option.splits)

lemma invalid_rejected:
  "\<not> valid_request_spec b \<Longrightarrow>
   \<exists>msg. createPaste b nanoid now baseUrl st = (error_response 400 msg, st)"
  by (cases "validate b") (auto simp add: validate_spec [symmetric] createPaste_def)

lemma createPaste_created:
  assumes "faults st = []" "createPaste b nanoid now baseUrl st = (Response 201 bdy, st')"
  shows "\<exists>j. bdy = [(''id'', JStr (nanoid j)), (''url'', JStr (baseUrl @ ''/p/'' @ nanoid j))] \<and>
           record_at st' (nanoid j) = Some (pasteData b now) \<and> faults st' = [] \<and>
           redisReady st' = redisReady st \<and> valid_request_spec b"
proof -
  from assms(2) have v: "validate b = None"
    by (cases "validate b") (simp_all add: createPaste_def error_response_def)
  obtain pid a st1 where al: "allocate_id 0 nanoid st = ((pid, a), st1)"
    by (metis surj_pair)
  from allocate_id_nofault [OF assms(1) al] obtain j where
    f1: "faults st1 = []" and r1: "redisReady st1 = redisReady st" and j: "pid = nanoid j"
    by auto
  from assms(2) v al f1 have "a \<noteq> maxAttempts"
    by (auto simp add: createPaste_def error_response_def split: if_splits)
  with assms(2) v al f1 have
    "bdy = [(''id'', JStr pid), (''url'', JStr (baseUrl @ ''/p/'' @ pid))]" "st' = put pid (pasteData b now) st1"
    by (auto simp add: createPaste_def savePaste_nofault)
  with f1 r1 j v show ?thesis
    by (auto simp add: validate_spec)
qed

lemma createPaste_succeeds:
  assumes "faults st = []" "valid_request_spec b" "j < maxAttempts" "record_at st (nanoid j) = None"
  shows "\<exists>bdy st'. createPaste b nanoid now baseUrl st = (Response 201 bdy, st')"
proof -
  from assms(2) have v: "validate b = None" by (simp add: validate_spec)
  obtain pid a st1 where al: "allocate_id 0 nanoid st = ((pid, a), st1)"
    by (metis surj_pair)
  from allocate_id_finds [of st 0 j nanoid] assms al have "a < maxAttempts" by simp
  moreover from allocate_id_nofault [OF assms(1) al] have "faults st1 = []" by simp
  ultimately show ?thesis
    using v al by (simp add: createPaste_def savePaste_nofault)
qed

section \<open>Creation and the view budget\<close>

lemma valid_max_views:
  "valid_request_spec b \<Longrightarrow> body_max_views b = Number (Integer N) \<Longrightarrow>
   1 \<le> N \<and> N \<le> 1000000 \<and> truthy_integer (body_max_views b) = Some N"
  by (auto simp add: valid_request_spec_def present_def integer_in_def truthy_integer_def)

lemma valid_ttl_seconds:
  "valid_request_spec b \<Longrightarrow> body_ttl_seconds b = Number (Integer T) \<Longrightarrow>
   1 \<le> T \<and> T \<le> 31536000 \<and> truthy_integer (body_ttl_seconds b) = Some T"
  by (auto simp add: valid_request_spec_def present_def integer_in_def truthy_integer_def)

lemma valid_no_ttl:
  "valid_request_spec b \<Longrightarrow> \<not> present (body_ttl_seconds b) \<Longrightarrow>
   truthy_integer (body_ttl_seconds b) = None"
  by (auto simp add: present_def truthy_integer_def)

lemma valid_no_max_views:
  "valid_request_spec b \<Longrightarrow> \<not> present (body_max_views b) \<Longrightarrow>
   truthy_integer (body_max_views b) = None"
  by (auto simp add: present_def truthy_integer_def)

lemma expired_pasteData:
  assumes "valid_request_spec b"
  shows "expired (pasteData b t0) now \<longleftrightarrow>
     (\<exists>T. body_ttl_seconds b = Number (Integer T) \<and> t0 + T * 1000 \<le> now)"
proof (cases "present (body_ttl_seconds b)")
  case True
  with assms obtain T where "body_ttl_seconds b = Number (Integer T)"
    by (auto simp add: valid_request_spec_def integer_in_def)
  with valid_ttl_seconds [OF assms this] show ?thesis
    by (simp add: expired_def pasteData_def)
next
  case False
  with valid_no_ttl [OF assms False] show ?thesis
    by (auto simp add: expired_def pasteData_def present_def)
qed

lemma absent_nofault:
  assumes "faults st = []" "record_at st pid = None"
  shows "fst (fetchCounted pid now st) = not_found \<and> fst (fetchMetadata pid now st) = not_found \<and>
         fst (getPaste pid st) = None"
proof (cases "valid_id pid")
  case True
  with assms show ?thesis
    by (simp add: fetchCounted_nofault fetchMetadata_nofault getPaste_nofault)
next
  case False
  with assms show ?thesis
    by (auto simp add: fetchCounted_def fetchMetadata_def valid_id_def getPaste_nofault)
qed

text \<open>
  Claim C1. On a backend that does not fail, let a creation with \<open>max_views = N\<close> have
  succeeded, and let \<open>N\<close> counted fetches of the new identifier follow, none of them at
  or after the expiry time. Then \<open>N\<close> is positive, each of the \<open>N\<close> fetches answers 200
  with the content, and afterwards a further counted fetch and a metadata fetch answer
  404 at any time and a load finds no record.
\<close>

theorem view_budget_exact:
  assumes "faults st = []"
    and "createPaste b nanoid t0 baseUrl st = (Response 201 bdy, st1)"
    and "\<forall>k. length (nanoid k) = 10"
    and "body_max_views b = Number (Integer N)"
    and "length nows = nat N"
    and "\<forall>now \<in> set nows. \<forall>T. body_ttl_seconds b = Number (Integer T) \<longrightarrow> now < t0 + T * 1000"
  shows "\<exists>pid c rs st2. map_of bdy ''id'' = Some (JStr pid) \<and> body_content b = String c \<and>
           fetchCounted_seq pid nows st1 = (rs, st2) \<and> 0 < N \<and> length rs = nat N \<and>
           (\<forall>r \<in> set rs. status r = 200 \<and> map_of (body r) ''content'' = Some (JStr c)) \<and>
           (\<forall>now. fst (fetchCounted pid now st2) = not_found) \<and>
           (\<forall>now. fst (fetchMetadata pid now st2) = not_found) \<and>
           fst (getPaste pid st2) = None"
proof -
  from createPaste_created [OF assms(1,2)] obtain j where
    bdy: "bdy = [(''id'', JStr (nanoid j)), (''url'', JStr (baseUrl @ ''/p/'' @ nanoid j))]"
    and rec: "record_at st1 (nanoid j) = Some (pasteData b t0)"
    and f1: "faults st1 = []" and v: "valid_request_spec b"
    by auto
  let ?pid = "nanoid j" and ?p = "pasteData b t0"
  from v obtain c where c: "body_content b = String c"
    by (auto simp add: valid_request_spec_def)
  from valid_max_views [OF v assms(4)] have N: "1 \<le> N"
    and rv: "remaining_views ?p = Some N"
    by (simp_all add: pasteData_def)
  from assms(3) have "length ?pid = 10" by blast
  then have vid: "valid_id ?pid" by (auto simp add: valid_id_def)
  from N assms(5) have ne: "nows \<noteq> []" and len: "int (length nows) = N" by auto
  from assms(6) have nexp: "\<forall>now \<in> set nows. \<not> expired ?p now"
    by (auto simp add: expired_pasteData [OF v])
  from fetchCounted_seq_budget [OF f1 vid rec _ ne nexp] rv len obtain rs st2 where
    run: "fetchCounted_seq ?pid nows st1 = (rs, st2)" "length rs = length nows"
      "\<forall>r \<in> set rs. status r = 200 \<and> map_of (body r) ''content'' = Some (JStr (content ?p))"
      "faults st2 = []" "record_at st2 ?pid = None"
    by auto
  have "content ?p = c" using c by (simp add: pasteData_def)
  with run bdy c N assms(5) absent_nofault [OF run(4,5)] show ?thesis
    by auto
qed


lemma createPaste_first_free:
  assumes "faults st = []" "valid_request_spec b" "record_at st (nanoid 0) = None"
    "\<not> corrupt_at st (nanoid 0)"
  shows "createPaste b nanoid now baseUrl st =
     (Response 201 [(''id'', JStr (nanoid 0)), (''url'', JStr (baseUrl @ ''/p/'' @ nanoid 0))],
      put (nanoid 0) (pasteData b now) st)"
proof -
  from assms(2) have v: "validate b = None" by (simp add: validate_spec)
  from assms have g: "getPaste (nanoid 0) st = (None, st)"
    by (simp add: getPaste_nofault scrub_def)
  then have "allocate_id 0 nanoid st = ((nanoid 0, 0), st)"
    by (simp add: allocate_id.simps [of 0])
  with v assms(1) show ?thesis
    by (simp add: createPaste_def maxAttempts_def savePaste_nofault)
qed

lemma empty_store_simps [simp]:
  "faults (empty_store ready) = []" "redisReady (empty_store ready) = ready"
  "record_at (empty_store ready) pid = None" "\<not> corrupt_at (empty_store ready) pid"
  by (simp_all add: empty_store_def record_at_def corrupt_at_def)

lemma sample_valid:
  "valid_request_spec (sample_body ''hello'' Undefined (Number (Integer 2)))"
  by (simp add: valid_request_spec_def sample_body_def present_def integer_in_def trim_def isWhiteSpace_def)

theorem view_budget_exact_witness:
  "\<exists>pid c rs st2.
     map_of [(''id'', JStr ''V1StGXR8_Z''), (''url'', JStr ''http://localhost:3001/p/V1StGXR8_Z'')] ''id'' = Some (JStr pid) \<and>
     body_content (sample_body ''hello'' Undefined (Number (Integer 2))) = String c \<and>
     fetchCounted_seq pid [10, 20]
       (put ''V1StGXR8_Z'' (pasteData (sample_body ''hello'' Undefined (Number (Integer 2))) 0) (empty_store False)) = (rs, st2) \<and>
     0 < (2 :: int) \<and> length rs = nat 2 \<and>
     (\<forall>r \<in> set rs. status r = 200 \<and> map_of (body r) ''content'' = Some (JStr c)) \<and>
     (\<forall>now. fst (fetchCounted pid now st2) = not_found) \<and>
     (\<forall>now. fst (fetchMetadata pid now st2) = not_found) \<and>
     fst (getPaste pid st2) = None"
proof -
  let ?b = "sample_body ''hello'' Undefined (Number (Integer 2))"
  have h1: "faults (empty_store False) = []"
    by simp
  have h2: "createPaste ?b sample_nanoid 0 ''http://localhost:3001'' (empty_store False) =
      (Response 201 [(''id'', JStr ''V1StGXR8_Z''), (''url'', JStr ''http://localhost:3001/p/V1StGXR8_Z'')],
       put ''V1StGXR8_Z'' (pasteData ?b 0) (empty_store False))"
    using createPaste_first_free [of "empty_store False" ?b sample_nanoid 0 "''http://localhost:3001''"]
      sample_valid
    by (simp add: sample_nanoid_def)
  have h3: "\<forall>k. length (sample_nanoid k) = 10"
    by (simp add: sample_nanoid_def)
  have h4: "body_max_views ?b = Number (Integer 2)"
    by (simp add: sample_body_def)
  have h5: "length [10, 20 :: int] = nat 2"
    by simp
  have h6: "\<forall>now \<in> set [10, 20 :: int]. \<forall>T. body_ttl_seconds ?b = Number (Integer T) \<longrightarrow> now < 0 + T * 1000"
    by (simp add: sample_body_def)
  show ?thesis
    using view_budget_exact [OF h1 h2 h3 h4 h5 h6] .
qed

section \<open>Expiry\<close>

lemma valid_not_exhausted:
  assumes "valid_request_spec b"
  shows "\<not> exhausted (pasteData b t0)"
proof (cases "present (body_max_views b)")
  case True
  with assms obtain N where "body_max_views b = Number (Integer N)"
    by (auto simp add: valid_request_spec_def integer_in_def)
  with valid_max_views [OF assms this] show ?thesis
    by (simp add: exhausted_def pasteData_def)
next
  case False
  with valid_no_max_views [OF assms False] show ?thesis
    by (simp add: exhausted_def pasteData_def)
qed

lemma fetchCounted_live:
  assumes "faults st = []" "valid_id pid" "record_at st pid = Some p"
    "\<not> expired p now" "\<not> exhausted p"
  shows "fst (fetchCounted pid now st) = counted_response (viewed p)"
  using assms
  by (auto simp add: fetchCounted_nofault fetchCounted_loaded_nofault exhausted_def
      split: option.splits)

lemma fetchMetadata_live:
  assumes "faults st = []" "valid_id pid" "record_at st pid = Some p"
    "\<not> expired p now" "\<not> exhausted p"
  shows "fetchMetadata pid now st = (metadata_response p, st)"
  using assms by (simp add: fetchMetadata_nofault)

lemma fetch_expired:
  assumes "faults st = []" "valid_id pid" "record_at st pid = Some p" "expired p now"
  shows "fetchCounted pid now st = (not_found, remove pid st)"
    and "fetchMetadata pid now st = (not_found, remove pid st)"
  using assms by (simp_all add: fetchCounted_nofault fetchCounted_loaded_nofault fetchMetadata_nofault)

lemma getPaste_removed: "faults st = [] \<Longrightarrow> fst (getPaste pid (remove pid st)) = None"
  by (simp add: getPaste_nofault)

text \<open>
  Claim C3. On a backend that does not fail, let a creation at time \<open>t0\<close> with
  \<open>ttl_seconds = T\<close> have succeeded. One millisecond before \<open>t0 + T * 1000\<close> the counted
  fetch and the metadata fetch both answer 200. At \<open>t0 + T * 1000\<close> and at any later time
  each of them answers 404, and a load after it finds no record: the comparison with the
  expiry time is inclusive.
\<close>

theorem expiry_boundary_inclusive:
  assumes "faults st = []"
    and "createPaste b nanoid t0 baseUrl st = (Response 201 bdy, st1)"
    and "\<forall>k. length (nanoid k) = 10"
    and "body_ttl_seconds b = Number (Integer T)"
  shows "\<exists>pid. map_of bdy ''id'' = Some (JStr pid) \<and>
     status (fst (fetchCounted pid (t0 + T * 1000 - 1) st1)) = 200 \<and>
     status (fst (fetchMetadata pid (t0 + T * 1000 - 1) st1)) = 200 \<and>
     (\<forall>now \<ge> t0 + T * 1000.
        fst (fetchCounted pid now st1) = not_found \<and>
        fst (getPaste pid (snd (fetchCounted pid now st1))) = None \<and>
        fst (fetchMetadata pid now st1) = not_found \<and>
        fst (getPaste pid (snd (fetchMetadata pid now st1))) = None)"
proof -
  from createPaste_created [OF assms(1,2)] obtain j where
    bdy: "bdy = [(''id'', JStr (nanoid j)), (''url'', JStr (baseUrl @ ''/p/'' @ nanoid j))]"
    and rec: "record_at st1 (nanoid j) = Some (pasteData b t0)"
    and f1: "faults st1 = []" and v: "valid_request_spec b"
    by auto
  let ?pid = "nanoid j" and ?p = "pasteData b t0"
  from assms(3) have "length ?pid = 10" by blast
  then have vid: "valid_id ?pid" by (auto simp add: valid_id_def)
  have before: "\<not> expired ?p (t0 + T * 1000 - 1)"
    using assms(4) by (simp add: expired_pasteData [OF v])
  have after: "expired ?p now" if "t0 + T * 1000 \<le> now" for now
    using assms(4) that by (simp add: expired_pasteData [OF v])
  have nex: "\<not> exhausted ?p" by (rule valid_not_exhausted [OF v])
  have a: "status (fst (fetchCounted ?pid (t0 + T * 1000 - 1) st1)) = 200"
    by (simp add: fetchCounted_live [OF f1 vid rec before nex] counted_response_def)
  have b: "status (fst (fetchMetadata ?pid (t0 + T * 1000 - 1) st1)) = 200"
    by (simp add: fetchMetadata_live [OF f1 vid rec before nex] metadata_response_def)
  have c: "fst (fetchCounted ?pid now st1) = not_found \<and>
        fst (getPaste ?pid (snd (fetchCounted ?pid now st1))) = None \<and>
        fst (fetchMetadata ?pid now st1) = not_found \<and>
        fst (getPaste ?pid (snd (fetchMetadata ?pid now st1))) = None"
    if "t0 + T * 1000 \<le> now" for now
    using fetch_expired [OF f1 vid rec after [OF that]] f1
    by (simp add: getPaste_removed)
  from a b c bdy show ?thesis by auto
qed

theorem expiry_boundary_inclusive_witness:
  "\<exists>pid. map_of [(''id'', JStr ''V1StGXR8_Z''), (''url'', JStr ''http://localhost:3001/p/V1StGXR8_Z'')] ''id'' = Some (JStr pid) \<and>
     status (fst (fetchCounted pid (5 + 60 * 1000 - 1)
        (put ''V1StGXR8_Z'' (pasteData (sample_body ''hello'' (Number (Integer 60)) Undefined) 5) (empty_store True)))) = 200 \<and>
     status (fst (fetchMetadata pid (5 + 60 * 1000 - 1)
        (put ''V1StGXR8_Z'' (pasteData (sample_body ''hello'' (Number (Integer 60)) Undefined) 5) (empty_store True)))) = 200 \<and>
     (\<forall>now \<ge> 5 + 60 * 1000.
        fst (fetchCounted pid now
          (put ''V1StGXR8_Z'' (pasteData (sample_body ''hello'' (Number (Integer 60)) Undefined) 5) (empty_store True))) = not_found \<and>
        fst (getPaste pid (snd (fetchCounted pid now
          (put ''V1StGXR8_Z'' (pasteData (sample_body ''hello'' (Number (Integer 60)) Undefined) 5) (empty_store True))))) = None \<and>
        fst (fetchMetadata pid now
          (put ''V1StGXR8_Z'' (pasteData (sample_body ''hello'' (Number (Integer 60)) Undefined) 5) (empty_store True))) = not_found \<and>
        fst (getPaste pid (snd (fetchMetadata pid now
          (put ''V1StGXR8_Z'' (pasteData (sample_body ''hello'' (Number (Integer 60)) Undefined) 5) (empty_store True))))) = None)"
proof -
  let ?b = "sample_body ''hello'' (Number (Integer 60)) Undefined"
  have valid: "valid_request_spec ?b"
    by (simp add: valid_request_spec_def sample_body_def present_def integer_in_def trim_def isWhiteSpace_def)
  have h1: "faults (empty_store True) = []"
    by simp
  have h2: "createPaste ?b sample_nanoid 5 ''http://localhost:3001'' (empty_store True) =
      (Response 201 [(''id'', JStr ''V1StGXR8_Z''), (''url'', JStr ''http://localhost:3001/p/V1StGXR8_Z'')],
       put ''V1StGXR8_Z'' (pasteData ?b 5) (empty_store True))"
    using createPaste_first_free [of "empty_store True" ?b sample_nanoid 5 "''http://localhost:3001''"] valid
    by (simp add: sample_nanoid_def)
  have h3: "\<forall>k. length (sample_nanoid k) = 10"
    by (simp add: sample_nanoid_def)
  have h4: "body_ttl_seconds ?b = Number (Integer 60)"
    by (simp add: sample_body_def)
  show ?thesis
    using expiry_boundary_inclusive [OF h1 h2 h3 h4] .
qed

section \<open>Content returned by the metadata fetch\<close>

lemma replace_all_absent: "c \<notin> set str \<Longrightarrow> replace_all c r str = str"
  by (induction str) (auto simp add: replace_all_def)

lemma length_replace_all_ge:
  assumes "r \<noteq> []"
  shows "length str \<le> length (replace_all c r str)"
proof (induction str)
  case Nil
  show ?case by (simp add: replace_all_def)
next
  case (Cons x xs)
  from assms obtain a r' where "r = a # r'" by (cases r) auto
  with Cons show ?case by (simp add: replace_all_def)
qed

lemma length_replace_all_gt:
  "c \<in> set str \<Longrightarrow> 1 < length r \<Longrightarrow> length str < length (replace_all c r str)"
proof (induction str)
  case Nil
  then show ?case by simp
next
  case (Cons x xs)
  have ge: "length xs \<le> length (replace_all c r xs)"
    using Cons.prems(2) by (intro length_replace_all_ge) auto
  show ?case
  proof (cases "x = c")
    case True
    with ge Cons.prems(2) show ?thesis by (simp add: replace_all_def)
  next
    case False
    with Cons show ?thesis by (simp add: replace_all_def)
  qed
qed

lemma escapeHtml_plain: "set str \<inter> html_special = {} \<Longrightarrow> escapeHtml str = str"
  by (simp add: escapeHtml_def html_special_def replace_all_absent)

lemma escapeHtml_longer:
  assumes "set str \<inter> html_special \<noteq> {}"
  shows "length str < length (escapeHtml str)"
proof -
  let ?t1 = "replace_all CHR ''&'' ''&amp;'' str"
  let ?t2 = "replace_all CHR ''<'' ''&lt;'' ?t1"
  let ?t3 = "replace_all CHR ''>'' ''&gt;'' ?t2"
  let ?t4 = "replace_all (CHR 0x22) ''&quot;'' ?t3"
  let ?t5 = "replace_all (CHR 0x27) ''&#039;'' ?t4"
  have g1: "length str \<le> length ?t1" and g2: "length ?t1 \<le> length ?t2"
    and g3: "length ?t2 \<le> length ?t3" and g4: "length ?t3 \<le> length ?t4"
    and g5: "length ?t4 \<le> length ?t5"
    by (simp_all add: length_replace_all_ge)
  have e: "escapeHtml str = ?t5" by (simp add: escapeHtml_def)
  show ?thesis
  proof (rule ccontr)
    assume "\<not> length str < length (escapeHtml str)"
    with e g1 g2 g3 g4 g5 have eq: "length ?t1 = length str" "length ?t2 = length ?t1"
      "length ?t3 = length ?t2" "length ?t4 = length ?t3" "length ?t5 = length ?t4"
      by simp_all
    have n1: "CHR ''&'' \<notin> set str"
      using length_replace_all_gt [of "CHR ''&''" str "''&amp;''"] eq(1) by auto
    then have t1: "?t1 = str" by (simp add: replace_all_absent)
    have n2: "CHR ''<'' \<notin> set str"
      using length_replace_all_gt [of "CHR ''<''" ?t1 "''&lt;''"] eq(2) t1 by auto
    then have t2: "?t2 = str" using t1 by (simp add: replace_all_absent)
    have n3: "CHR ''>'' \<notin> set str"
      using length_replace_all_gt [of "CHR ''>''" ?t2 "''&gt;''"] eq(3) t2 by auto
    then have t3: "?t3 = str" using t2 by (simp add: replace_all_absent)
    have n4: "CHR 0x22 \<notin> set str"
      using length_replace_all_gt [of "CHR 0x22" ?t3 "''&quot;''"] eq(4) t3 by auto
    then have t4: "?t4 = str" using t3 by (simp add: replace_all_absent)
    have n5: "CHR 0x27 \<notin> set str"
      using length_replace_all_gt [of "CHR 0x27" ?t4 "''&#039;''"] eq(5) t4 by auto
    from n1 n2 n3 n4 n5 assms show False
      by (auto simp add: html_special_def)
  qed
qed

lemma escapeHtml_fixed: "escapeHtml str = str \<longleftrightarrow> set str \<inter> html_special = {}"
proof
  assume eq: "escapeHtml str = str"
  show "set str \<inter> html_special = {}"
  proof (rule ccontr)
    assume "set str \<inter> html_special \<noteq> {}"
    from escapeHtml_longer [OF this] eq show False by simp
  qed
next
  assume "set str \<inter> html_special = {}"
  then show "escapeHtml str = str" by (rule escapeHtml_plain)
qed


lemma sample_body_valid:
  "trim c \<noteq> [] \<Longrightarrow> length c \<le> 10485760 \<Longrightarrow> valid_request_spec (sample_body c Undefined Undefined)"
  by (simp add: valid_request_spec_def sample_body_def present_def)

lemma sample_create:
  assumes "valid_request_spec b"
  shows "createPaste b sample_nanoid t0 baseUrl (empty_store ready) =
     (Response 201 [(''id'', JStr ''V1StGXR8_Z''), (''url'', JStr (baseUrl @ ''/p/V1StGXR8_Z''))],
      put ''V1StGXR8_Z'' (pasteData b t0) (empty_store ready))"
  using createPaste_first_free [of "empty_store ready" b sample_nanoid t0 baseUrl] assms
  by (simp add: sample_nanoid_def)

lemma sample_id_valid: "valid_id ''V1StGXR8_Z''"
  by (simp add: valid_id_def)

text \<open>
  Claim C4, as stated, fails: the metadata handler answers with \<open>escapeHtml\<close> of the
  stored content. For the valid content \<open><b>\<close>, creation followed by a metadata fetch
  returns \<open>&lt;b&gt;\<close>.
\<close>

theorem metadata_content_counterexample:
  "valid_request_spec (sample_body ''<b>'' Undefined Undefined) \<and>
   fst (createPaste (sample_body ''<b>'' Undefined Undefined) sample_nanoid 0 ''http://localhost:3001''
          (empty_store False)) =
     Response 201 [(''id'', JStr ''V1StGXR8_Z''), (''url'', JStr ''http://localhost:3001/p/V1StGXR8_Z'')] \<and>
   map_of (body (fst (fetchMetadata ''V1StGXR8_Z'' 0
       (snd (createPaste (sample_body ''<b>'' Undefined Undefined) sample_nanoid 0 ''http://localhost:3001''
          (empty_store False)))))) ''content'' = Some (JStr ''&lt;b&gt;'') \<and>
   ''&lt;b&gt;'' \<noteq> ''<b>''"
proof -
  let ?b = "sample_body ''<b>'' Undefined Undefined"
  have v: "valid_request_spec ?b"
    by (rule sample_body_valid) (simp_all add: trim_def isWhiteSpace_def)
  have p: "pasteData ?b 0 = \<lparr>content = ''<b>'', created_at = 0, expires_at = None, max_views = None,
      remaining_views = None, view_count = 0\<rparr>"
    by (simp add: pasteData_def sample_body_def truthy_integer_def)
  have m: "fetchMetadata ''V1StGXR8_Z'' 0 (put ''V1StGXR8_Z'' (pasteData ?b 0) (empty_store False)) =
      (metadata_response (pasteData ?b 0), put ''V1StGXR8_Z'' (pasteData ?b 0) (empty_store False))"
    by (rule fetchMetadata_live) (simp_all add: sample_id_valid p expired_def exhausted_def)
  have e: "escapeHtml ''<b>'' = ''&lt;b&gt;''"
    by (simp add: escapeHtml_def replace_all_def)
  have c: "map_of (body (metadata_response (pasteData ?b 0))) ''content'' = Some (JStr ''&lt;b&gt;'')"
    by (simp add: metadata_response_def p e)
  show ?thesis
    using v c by (simp add: sample_create [OF v] m)
qed

text \<open>
  Claim C4, amended. On a backend that does not fail, after a successful creation with
  content \<open>c\<close> a metadata fetch before the expiry time answers 200 with the content
  \<open>escapeHtml c\<close>, which is \<open>c\<close> itself exactly when \<open>c\<close> has none of the characters
  \<open>&\<close>, \<open><\<close>, \<open>>\<close>, the double quote and the single quote. The stored record
  holds \<open>c\<close> unchanged, and a counted fetch returns \<open>c\<close> unchanged.
\<close>

theorem metadata_content_escaped:
  assumes "faults st = []"
    and "createPaste b nanoid t0 baseUrl st = (Response 201 bdy, st1)"
    and "\<forall>k. length (nanoid k) = 10"
    and "body_content b = String c"
    and "\<forall>T. body_ttl_seconds b = Number (Integer T) \<longrightarrow> now < t0 + T * 1000"
  shows "\<exists>pid. map_of bdy ''id'' = Some (JStr pid) \<and>
     status (fst (fetchMetadata pid now st1)) = 200 \<and>
     map_of (body (fst (fetchMetadata pid now st1))) ''content'' = Some (JStr (escapeHtml c)) \<and>
     (escapeHtml c = c \<longleftrightarrow> set c \<inter> html_special = {}) \<and>
     map_option content (record_at st1 pid) = Some c \<and>
     map_of (body (fst (fetchCounted pid now st1))) ''content'' = Some (JStr c)"
proof -
  from createPaste_created [OF assms(1,2)] obtain j where
    bdy: "bdy = [(''id'', JStr (nanoid j)), (''url'', JStr (baseUrl @ ''/p/'' @ nanoid j))]"
    and rec: "record_at st1 (nanoid j) = Some (pasteData b t0)"
    and f1: "faults st1 = []" and v: "valid_request_spec b"
    by auto
  let ?pid = "nanoid j" and ?p = "pasteData b t0"
  from assms(3) have "length ?pid = 10" by blast
  then have vid: "valid_id ?pid" by (auto simp add: valid_id_def)
  have nexp: "\<not> expired ?p now"
    using assms(5) by (auto simp add: expired_pasteData [OF v])
  have nex: "\<not> exhausted ?p" by (rule valid_not_exhausted [OF v])
  have c: "content ?p = c" using assms(4) by (simp add: pasteData_def)
  have m: "fst (fetchMetadata ?pid now st1) = metadata_response ?p"
    by (simp add: fetchMetadata_live [OF f1 vid rec nexp nex])
  have f: "fst (fetchCounted ?pid now st1) = counted_response (viewed ?p)"
    by (rule fetchCounted_live [OF f1 vid rec nexp nex])
  from bdy rec c show ?thesis
    by (simp add: m f metadata_response_def counted_response_def escapeHtml_fixed)
qed

theorem metadata_content_escaped_witness:
  "\<exists>pid. map_of [(''id'', JStr ''V1StGXR8_Z''), (''url'', JStr (''http://localhost:3001'' @ ''/p/V1StGXR8_Z''))] ''id'' = Some (JStr pid) \<and>
     status (fst (fetchMetadata pid 0
        (put ''V1StGXR8_Z'' (pasteData (sample_body ''Tom & Jerry'' Undefined Undefined) 0) (empty_store False)))) = 200 \<and>
     map_of (body (fst (fetchMetadata pid 0
        (put ''V1StGXR8_Z'' (pasteData (sample_body ''Tom & Jerry'' Undefined Undefined) 0) (empty_store False)))))
       ''content'' = Some (JStr (escapeHtml ''Tom & Jerry'')) \<and>
     (escapeHtml ''Tom & Jerry'' = ''Tom & Jerry'' \<longleftrightarrow> set ''Tom & Jerry'' \<inter> html_special = {}) \<and>
     map_option content (record_at
        (put ''V1StGXR8_Z'' (pasteData (sample_body ''Tom & Jerry'' Undefined Undefined) 0) (empty_store False)) pid)
       = Some ''Tom & Jerry'' \<and>
     map_of (body (fst (fetchCounted pid 0
        (put ''V1StGXR8_Z'' (pasteData (sample_body ''Tom & Jerry'' Undefined Undefined) 0) (empty_store False)))))
       ''content'' = Some (JStr ''Tom & Jerry'')"
proof -
  let ?b = "sample_body ''Tom & Jerry'' Undefined Undefined"
  have v: "valid_request_spec ?b"
    by (rule sample_body_valid) (simp_all add: trim_def isWhiteSpace_def)
  have h1: "faults (empty_store False) = []" by simp
  have h3: "\<forall>k. length (sample_nanoid k) = 10" by (simp add: sample_nanoid_def)
  have h4: "body_content ?b = String ''Tom & Jerry''" by (simp add: sample_body_def)
  have h5: "\<forall>T. body_ttl_seconds ?b = Number (Integer T) \<longrightarrow> 0 < 0 + T * 1000"
    by (simp add: sample_body_def)
  show ?thesis
    using metadata_content_escaped [OF h1 sample_create [OF v] h3 h4 h5] .
qed

section \<open>Fetches under any schedule of failures\<close>

lemma next_fault_frame:
  "next_fault st = (f, st') \<Longrightarrow>
   redis st' = redis st \<and> memoryStore st' = memoryStore st \<and> redisReady st' = redisReady st"
  by (auto simp add: next_fault_def split: list.splits)

lemma record_at_cong:
  "redis st' = redis st \<Longrightarrow> memoryStore st' = memoryStore st \<Longrightarrow> redisReady st' = redisReady st \<Longrightarrow>
   record_at st' q = record_at st q"
  by (simp add: record_at_def)

lemma redis_del_cases:
  "redis_del k st = (r, st') \<Longrightarrow>
   redisReady st' = redisReady st \<and> memoryStore st' = memoryStore st \<and>
   (case r of Inl e \<Rightarrow> redis st' = redis st | Inr u \<Rightarrow> redis st' = (redis st)(k := None))"
  by (auto simp add: redis_del_def next_fault_def split: list.splits bool.splits if_splits)

lemma redis_set_cases:
  "redis_set k v st = (r, st') \<Longrightarrow>
   redisReady st' = redisReady st \<and> memoryStore st' = memoryStore st \<and>
   (case r of Inl e \<Rightarrow> redis st' = redis st | Inr u \<Rightarrow> redis st' = (redis st)(k \<mapsto> v))"
  by (auto simp add: redis_set_def next_fault_def split: list.splits bool.splits if_splits)

lemma redis_get_cases:
  "redis_get k st = (r, st') \<Longrightarrow>
   redisReady st' = redisReady st \<and> memoryStore st' = memoryStore st \<and> redis st' = redis st \<and>
   (case r of Inl e \<Rightarrow> True | Inr v \<Rightarrow> v = redis st k)"
  by (auto simp add: redis_get_def next_fault_def split: list.splits bool.splits if_splits)

text \<open>Under any schedule of failures.\<close>

lemma deletePaste_loop_effect:
  "deletePaste_loop i retries pid st = (ok, st') \<Longrightarrow>
   redisReady st' = redisReady st \<and>
   (\<forall>q. record_at st' q = (if ok \<and> q = pid then None else record_at st q))"
proof (induction i retries pid st rule: deletePaste_loop.induct)
  case (1 i retries pid st)
  show ?case
  proof (cases "i < retries \<and> redisReady st")
    case False
    with "1.prems" show ?thesis
      by (auto simp add: deletePaste_loop.simps [of i] record_at_def split: if_splits)
  next
    case True
    obtain r st1 where rd: "redis_del (paste_key pid) st = (r, st1)" by (metis surj_pair)
    note fr = redis_del_cases [OF rd]
    have unf: "deletePaste_loop i retries pid st =
        (case r of Inr u \<Rightarrow> (True, st1)
         | Inl e \<Rightarrow> if i = retries - 1 then (False, st1) else deletePaste_loop (i + 1) retries pid st1)"
      using True rd by (simp add: deletePaste_loop.simps [of i] split: sum.splits)
    show ?thesis
    proof (cases r)
      case (Inr u)
      with "1.prems" unf have "ok" "st' = st1" by simp_all
      with True fr Inr show ?thesis
        by (auto simp add: record_at_def paste_key_inj)
    next
      case (Inl e)
      with fr have same: "\<forall>q. record_at st1 q = record_at st q"
        by (simp add: record_at_def)
      show ?thesis
      proof (cases "i = retries - 1")
        case last: True
        with "1.prems" unf Inl have "\<not> ok" "st' = st1" by simp_all
        with same fr show ?thesis by simp
      next
        case False
        with "1.prems" unf Inl have rec: "deletePaste_loop (i + 1) retries pid st1 = (ok, st')"
          by simp
        from True have a: "i < retries" and b: "redisReady st" by simp_all
        from "1.IH" [OF a b rd [symmetric] _ False rec] Inl
        have "redisReady st' = redisReady st1 \<and>
              (\<forall>q. record_at st' q = (if ok \<and> q = pid then None else record_at st1 q))"
          by simp
        with same fr show ?thesis by simp
      qed
    qed
  qed
qed

lemma deletePaste_effect:
  "deletePaste pid st = (ok, st') \<Longrightarrow>
   redisReady st' = redisReady st \<and>
   (\<forall>q. record_at st' q = (if ok \<and> q = pid then None else record_at st q))"
  unfolding deletePaste_def by (rule deletePaste_loop_effect)


lemma getPaste_loop_effect:
  "getPaste_loop i retries pid st = (r, st') \<Longrightarrow>
   redisReady st' = redisReady st \<and> (\<forall>q. record_at st' q = record_at st q) \<and>
   (\<forall>p. r = Some p \<longrightarrow>
      record_at st pid = Some p \<and> redis st' = redis st \<and> memoryStore st' = memoryStore st)"
proof (induction i retries pid st rule: getPaste_loop.induct)
  case (1 i retries pid st)
  show ?case
  proof (cases "i < retries \<and> redisReady st")
    case False
    with "1.prems" show ?thesis
      by (auto simp add: getPaste_loop.simps [of i] record_at_def split: if_splits)
  next
    case True
    obtain g st1 where rg: "redis_get (paste_key pid) st = (g, st1)" by (metis surj_pair)
    note fr = redis_get_cases [OF rg]
    from fr have same: "\<forall>q. record_at st1 q = record_at st q"
      by (simp add: record_at_def)
    have unf: "getPaste_loop i retries pid st =
        (case g of
           Inr None \<Rightarrow> (None, st1)
         | Inr (Some data) \<Rightarrow>
             if falsy data then (None, st1)
             else (case JSON_parse data of
                     Some p \<Rightarrow> (Some p, st1)
                   | None \<Rightarrow> (None, snd (deletePaste pid st1)))
         | Inl e \<Rightarrow> if i = retries - 1 then (None, st1) else getPaste_loop (i + 1) retries pid st1)"
      using True rg by (simp add: getPaste_loop.simps [of i] split: sum.splits option.splits)
    show ?thesis
    proof (cases g)
      case (Inl e)
      show ?thesis
      proof (cases "i = retries - 1")
        case last: True
        with "1.prems" unf Inl have "r = None" "st' = st1" by simp_all
        with same fr show ?thesis by simp
      next
        case False
        with "1.prems" unf Inl have rec: "getPaste_loop (i + 1) retries pid st1 = (r, st')"
          by simp
        from True have a: "i < retries" and b: "redisReady st" by simp_all
        from "1.IH" [OF a b rg [symmetric] _ False rec] Inl
        have "redisReady st' = redisReady st1 \<and> (\<forall>q. record_at st' q = record_at st1 q) \<and>
          (\<forall>p. r = Some p \<longrightarrow>
             record_at st1 pid = Some p \<and> redis st' = redis st1 \<and> memoryStore st' = memoryStore st1)"
          by simp
        with same fr show ?thesis by simp
      qed
    next
      case (Inr v)
      with fr have v: "redis st (paste_key pid) = v" by simp
      show ?thesis
      proof (cases v)
        case None
        with "1.prems" unf Inr have "r = None" "st' = st1" by simp_all
        with same fr show ?thesis by simp
      next
        case (Some data)
        show ?thesis
        proof (cases data)
          case (Stringified p)
          with "1.prems" unf Inr Some have "r = Some p" "st' = st1" by simp_all
          with same fr True v Some Stringified show ?thesis
            by (simp add: record_at_def)
        next
          case (Malformed m)
          obtain ok st2 where d: "deletePaste pid st1 = (ok, st2)" by (metis surj_pair)
          from True v Some Malformed same have none: "record_at st1 pid = None"
            by (simp add: record_at_def)
          from "1.prems" unf Inr Some Malformed d have "r = None" "st' = st1 \<or> st' = st2"
            by (auto split: if_splits)
          with deletePaste_effect [OF d] none same fr show ?thesis
            by auto
        qed
      qed
    qed
  qed
qed

lemma getPaste_effect:
  "getPaste pid st = (r, st') \<Longrightarrow>
   redisReady st' = redisReady st \<and> (\<forall>q. record_at st' q = record_at st q) \<and>
   (\<forall>p. r = Some p \<longrightarrow>
      record_at st pid = Some p \<and> redis st' = redis st \<and> memoryStore st' = memoryStore st)"
  unfolding getPaste_def by (rule getPaste_loop_effect)

lemma getPaste_absent:
  assumes "record_at st pid = None"
  shows "fst (getPaste pid st) = None"
proof (cases "getPaste pid st")
  case (Pair r st')
  from getPaste_effect [OF Pair] assms have "r = None" by (cases r) auto
  with Pair show ?thesis by simp
qed


lemma fetch_dead:
  assumes "valid_id pid" "getPaste pid st = (Some p, st1)" "expired p now \<or> exhausted p"
  shows "fetchCounted pid now st = (not_found, snd (deletePaste pid st1)) \<and>
         fetchMetadata pid now st = (not_found, snd (deletePaste pid st1))"
  using assms
  by (auto simp add: fetchCounted_def fetchMetadata_def valid_id_def fetchCounted_loaded_def
      fetchMetadata_loaded_def decrementViewsAtomic_def exhausted_def split: option.splits)

lemma status_not_found [simp]: "status not_found = 404"
  by (simp add: not_found_def error_response_def)

lemma status_internal_error [simp]: "status internal_error = 500"
  by (simp add: internal_error_def error_response_def)

text \<open>
  Claim C5. Let a fetch load a record whose \<open>remaining_views\<close> is a number not above
  zero. Then the counted fetch and the metadata fetch both answer 404 and leave the state
  that \<open>deletePaste\<close> produces; when that call succeeds, as it does on a backend
  without failures, the record is gone and a load finds nothing.
\<close>

theorem exhausted_never_served:
  assumes "valid_id pid" "getPaste pid st = (Some p, st1)"
    and "remaining_views p = Some rv" "rv \<le> 0"
  shows "fetchCounted pid now st = (not_found, snd (deletePaste pid st1)) \<and>
         fetchMetadata pid now st = (not_found, snd (deletePaste pid st1)) \<and>
         status not_found = 404 \<and>
         (fst (deletePaste pid st1) \<longrightarrow>
            record_at (snd (deletePaste pid st1)) pid = None \<and>
            fst (getPaste pid (snd (deletePaste pid st1))) = None) \<and>
         (faults st = [] \<longrightarrow> fst (deletePaste pid st1))"
proof -
  from assms(3,4) have ex: "expired p now \<or> exhausted p"
    by (simp add: exhausted_def)
  obtain ok st2 where d: "deletePaste pid st1 = (ok, st2)" by (metis surj_pair)
  from deletePaste_effect [OF d] have gone: "ok \<longrightarrow> record_at st2 pid = None"
    by simp
  have "faults st = [] \<longrightarrow> ok"
  proof
    assume f: "faults st = []"
    with assms(2) have "st1 = scrub pid st" by (simp add: getPaste_nofault)
    with f d show ok by (simp add: deletePaste_nofault)
  qed
  with fetch_dead [OF assms(1,2) ex] d gone show ?thesis
    by (auto simp add: getPaste_absent)
qed

theorem exhausted_never_served_witness:
  "fetchCounted ''V1StGXR8_Z'' 7 (put ''V1StGXR8_Z'' (sample_paste None (Some 0)) (empty_store True)) =
     (not_found, snd (deletePaste ''V1StGXR8_Z'' (put ''V1StGXR8_Z'' (sample_paste None (Some 0)) (empty_store True)))) \<and>
   fetchMetadata ''V1StGXR8_Z'' 7 (put ''V1StGXR8_Z'' (sample_paste None (Some 0)) (empty_store True)) =
     (not_found, snd (deletePaste ''V1StGXR8_Z'' (put ''V1StGXR8_Z'' (sample_paste None (Some 0)) (empty_store True)))) \<and>
   record_at (snd (deletePaste ''V1StGXR8_Z'' (put ''V1StGXR8_Z'' (sample_paste None (Some 0)) (empty_store True))))
     ''V1StGXR8_Z'' = None \<and>
   fst (getPaste ''V1StGXR8_Z''
     (snd (deletePaste ''V1StGXR8_Z'' (put ''V1StGXR8_Z'' (sample_paste None (Some 0)) (empty_store True))))) = None"
proof -
  let ?st = "put ''V1StGXR8_Z'' (sample_paste None (Some 0)) (empty_store True)"
  have f: "faults ?st = []" by simp
  have h2: "getPaste ''V1StGXR8_Z'' ?st = (Some (sample_paste None (Some 0)), ?st)"
    by (simp add: getPaste_nofault scrub_id)
  have h3: "remaining_views (sample_paste None (Some 0)) = Some 0"
    by (simp add: sample_paste_def)
  show ?thesis
    using exhausted_never_served [OF sample_id_valid h2 h3, of 7] f by simp
qed

lemma deletePaste_exhausted:
  assumes "redisReady st" "take 3 (faults st) = [True, True, True]"
  shows "fst (deletePaste pid st) = False"
proof -
  from assms(2) obtain fs where fs: "faults st = True # True # True # fs"
    by (cases "faults st"; simp; rename_tac a as; case_tac as; simp; rename_tac b bs; case_tac bs; simp)
  then show ?thesis
    using assms(1)
    by (simp add: deletePaste_def deletePaste_loop.simps [of 0] deletePaste_loop.simps [of "Suc 0"]
        deletePaste_loop.simps [of 2] deletePaste_loop.simps [of "Suc (Suc 0)"]
        redis_del_def next_fault_def)
qed

text \<open>
  Claim C10. Let a fetch load a record that is expired or exhausted, and let the three
  attempts of the delete that follows all fail. Then \<open>deletePaste\<close> returns false, the
  counted fetch and the metadata fetch still answer 404, and the record stays in the store.
\<close>

theorem failed_delete_swallowed:
  assumes "valid_id pid" "getPaste pid st = (Some p, st1)" "expired p now \<or> exhausted p"
    and "redisReady st1" "take 3 (faults st1) = [True, True, True]"
  shows "fst (deletePaste pid st1) = False \<and>
         fst (fetchCounted pid now st) = not_found \<and>
         fst (fetchMetadata pid now st) = not_found \<and>
         status not_found = 404 \<and>
         record_at (snd (fetchCounted pid now st)) pid = Some p \<and>
         record_at (snd (fetchMetadata pid now st)) pid = Some p"
proof -
  obtain ok st2 where d: "deletePaste pid st1 = (ok, st2)" by (metis surj_pair)
  from deletePaste_exhausted [OF assms(4,5), of pid] d have ok: "\<not> ok" by simp
  from getPaste_effect [OF assms(2)] have "record_at st1 pid = Some p" by simp
  with deletePaste_effect [OF d] ok have "record_at st2 pid = Some p" by simp
  with fetch_dead [OF assms(1-3)] d ok show ?thesis by simp
qed

theorem failed_delete_swallowed_witness:
  "fst (deletePaste ''V1StGXR8_Z'' (failing_store\<lparr>faults := [True, True, True]\<rparr>)) = False \<and>
   fst (fetchCounted ''V1StGXR8_Z'' 1000 failing_store) = not_found \<and>
   fst (fetchMetadata ''V1StGXR8_Z'' 1000 failing_store) = not_found \<and>
   record_at (snd (fetchCounted ''V1StGXR8_Z'' 1000 failing_store)) ''V1StGXR8_Z'' =
     Some (sample_paste (Some 1000) (Some 3)) \<and>
   record_at (snd (fetchMetadata ''V1StGXR8_Z'' 1000 failing_store)) ''V1StGXR8_Z'' =
     Some (sample_paste (Some 1000) (Some 3))"
proof -
  let ?st1 = "failing_store\<lparr>faults := [True, True, True]\<rparr>"
  have h2: "getPaste ''V1StGXR8_Z'' failing_store = (Some (sample_paste (Some 1000) (Some 3)), ?st1)"
    by (simp add: getPaste_def getPaste_loop.simps [of 0] redis_get_def next_fault_def failing_store_def)
  have h3: "expired (sample_paste (Some 1000) (Some 3)) 1000 \<or> exhausted (sample_paste (Some 1000) (Some 3))"
    by (simp add: expired_def sample_paste_def)
  have h4: "redisReady ?st1" by (simp add: failing_store_def)
  have h5: "take 3 (faults ?st1) = [True, True, True]" by simp
  show ?thesis
    using failed_delete_swallowed [OF sample_id_valid h2 h3 h4 h5] by simp
qed


lemma reload_frame:
  "redisReady (((\<lambda>s. snd (getPaste pid s)) ^^ n) st) = redisReady st \<and>
   (\<forall>q. record_at (((\<lambda>s. snd (getPaste pid s)) ^^ n) st) q = record_at st q)"
proof (induction n)
  case 0
  show ?case by simp
next
  case (Suc n)
  let ?s = "((\<lambda>s. snd (getPaste pid s)) ^^ n) st"
  from getPaste_effect [of pid ?s "fst (getPaste pid ?s)" "snd (getPaste pid ?s)"] Suc
  show ?case by simp
qed

text \<open>
  An empty payload passes for an absent key: the guard \<open>!data\<close> returns before
  \<open>JSON.parse\<close> is tried, and nothing is deleted.
\<close>

lemma getPaste_empty_payload:
  "redisReady st \<Longrightarrow> faults st = [] \<Longrightarrow> redis st (paste_key pid) = Some (Malformed []) \<Longrightarrow>
   getPaste pid st = (None, st)"
  by (simp add: getPaste_nofault record_at_def scrub_def corrupt_at_def)

text \<open>
  Claim C8, as stated, fails. An empty string under the key is a payload that exists and
  that \<open>JSON.parse\<close> rejects; the load returns no record, but the key is still there
  afterwards.
\<close>

theorem empty_payload_counterexample:
  "redis empty_payload_store (paste_key ''V1StGXR8_Z'') = Some (Malformed []) \<and>
   JSON_parse (Malformed []) = None \<and>
   fst (getPaste ''V1StGXR8_Z'' empty_payload_store) = None \<and>
   redis (snd (getPaste ''V1StGXR8_Z'' empty_payload_store)) (paste_key ''V1StGXR8_Z'') =
     Some (Malformed [])"
proof -
  have r: "redis empty_payload_store (paste_key ''V1StGXR8_Z'') = Some (Malformed [])"
    by (simp add: empty_payload_store_def)
  have "getPaste ''V1StGXR8_Z'' empty_payload_store = (None, empty_payload_store)"
    by (rule getPaste_empty_payload [OF _ _ r]) (simp_all add: empty_payload_store_def)
  with r show ?thesis by simp
qed

text \<open>
  Claim C8, amended. Let Redis hold, under the key of an identifier, a payload that
  \<open>JSON.parse\<close> rejects. Then a load returns no record, and so does every later load,
  whatever failures the backend has. On a backend without failures the first load
  removes the key when the payload is not empty, and leaves the store as it is when the
  payload is empty.
\<close>

theorem corrupt_payload_absent:
  assumes "redisReady st" "redis st (paste_key pid) = Some d" "JSON_parse d = None"
  shows "fst (getPaste pid st) = None \<and>
         (\<forall>n. fst (getPaste pid (((\<lambda>s. snd (getPaste pid s)) ^^ n) st)) = None) \<and>
         (faults st = [] \<and> \<not> falsy d \<longrightarrow> redis (snd (getPaste pid st)) (paste_key pid) = None) \<and>
         (faults st = [] \<and> falsy d \<longrightarrow> snd (getPaste pid st) = st)"
proof -
  from assms have none: "record_at st pid = None"
    by (cases d) (simp_all add: record_at_def)
  have later: "fst (getPaste pid (((\<lambda>s. snd (getPaste pid s)) ^^ n) st)) = None" for n
    using reload_frame [where pid = pid and n = n and st = st] none by (intro getPaste_absent) simp
  have gone: "redis (snd (getPaste pid st)) (paste_key pid) = None" if "faults st = []" "\<not> falsy d"
  proof -
    from that assms have "corrupt_at st pid" by (simp add: corrupt_at_def)
    with that assms(1) show ?thesis by (simp add: getPaste_nofault scrub_def remove_def)
  qed
  have kept: "snd (getPaste pid st) = st" if "faults st = []" "falsy d"
  proof -
    from that assms have "\<not> corrupt_at st pid" by (simp add: corrupt_at_def)
    with that show ?thesis by (simp add: getPaste_nofault scrub_def)
  qed
  from later [of 0] later gone kept show ?thesis by simp
qed

theorem corrupt_payload_absent_witness:
  "fst (getPaste ''V1StGXR8_Z'' corrupt_store) = None \<and>
   (\<forall>n. fst (getPaste ''V1StGXR8_Z'' (((\<lambda>s. snd (getPaste ''V1StGXR8_Z'' s)) ^^ n) corrupt_store)) = None) \<and>
   redis (snd (getPaste ''V1StGXR8_Z'' corrupt_store)) (paste_key ''V1StGXR8_Z'') = None \<and>
   fst (getPaste ''V1StGXR8_Z'' empty_payload_store) = None \<and>
   snd (getPaste ''V1StGXR8_Z'' empty_payload_store) = empty_payload_store"
proof -
  have h1: "redisReady corrupt_store" by (simp add: corrupt_store_def)
  have h2: "redis corrupt_store (paste_key ''V1StGXR8_Z'') = Some (Malformed ''{oops'')"
    by (simp add: corrupt_store_def)
  have h3: "JSON_parse (Malformed ''{oops'') = None" by simp
  have f: "faults corrupt_store = []" "\<not> falsy (Malformed ''{oops'')"
    by (simp_all add: corrupt_store_def)
  have e1: "redisReady empty_payload_store" by (simp add: empty_payload_store_def)
  have e2: "redis empty_payload_store (paste_key ''V1StGXR8_Z'') = Some (Malformed [])"
    by (simp add: empty_payload_store_def)
  have e3: "JSON_parse (Malformed []) = None" by simp
  have g: "faults empty_payload_store = []" "falsy (Malformed [])"
    by (simp_all add: empty_payload_store_def)
  show ?thesis
    using corrupt_payload_absent [OF h1 h2 h3] corrupt_payload_absent [OF e1 e2 e3] f g by simp
qed

section \<open>What the fetches change\<close>

lemma fetchMetadata_ok_frame:
  assumes "status (fst (fetchMetadata pid now st)) = 200"
  shows "redis (snd (fetchMetadata pid now st)) = redis st \<and>
         memoryStore (snd (fetchMetadata pid now st)) = memoryStore st \<and>
         redisReady (snd (fetchMetadata pid now st)) = redisReady st"
proof (cases "pid = [] \<or> length pid > 100")
  case True
  with assms show ?thesis by (simp add: fetchMetadata_def)
next
  case False
  obtain r st1 where g: "getPaste pid st = (r, st1)" by (metis surj_pair)
  show ?thesis
  proof (cases r)
    case None
    with assms False g show ?thesis
      by (simp add: fetchMetadata_def fetchMetadata_loaded_def)
  next
    case (Some p)
    with assms False g have "snd (fetchMetadata pid now st) = st1"
      by (auto simp add: fetchMetadata_def fetchMetadata_loaded_def split: if_splits)
    with getPaste_effect [OF g] Some show ?thesis by simp
  qed
qed

lemma fetchCounted_ok_valid:
  "status (fst (fetchCounted pid now st)) = 200 \<Longrightarrow> valid_id pid"
  by (auto simp add: fetchCounted_def valid_id_def split: if_splits)

text \<open>
  Claim C6. A metadata fetch that answers 200 leaves the content of Redis and of the
  process-local store as it was, under any schedule of failures. On a backend without
  failures, a counted fetch that answers 200 on a record with \<open>remaining_views = rv\<close>
  reports \<open>rv - 1\<close>, and the record it leaves is the old one with \<open>remaining_views\<close>
  lowered by one and \<open>view_count\<close> raised by one, except that the record is removed
  when \<open>rv - 1\<close> is zero; with \<open>remaining_views = null\<close> only \<open>view_count\<close> changes.
  Records of other identifiers are not touched.
\<close>

theorem fetch_frame:
  "(status (fst (fetchMetadata pid now st)) = 200 \<longrightarrow>
      redis (snd (fetchMetadata pid now st)) = redis st \<and>
      memoryStore (snd (fetchMetadata pid now st)) = memoryStore st \<and>
      redisReady (snd (fetchMetadata pid now st)) = redisReady st) \<and>
   (faults st = [] \<and> status (fst (fetchCounted pid now st)) = 200 \<longrightarrow>
      (\<exists>p. record_at st pid = Some p \<and>
         (\<forall>q. q \<noteq> pid \<longrightarrow> record_at (snd (fetchCounted pid now st)) q = record_at st q) \<and>
         (remaining_views p = None \<longrightarrow>
            record_at (snd (fetchCounted pid now st)) pid = Some (p\<lparr>view_count := view_count p + 1\<rparr>)) \<and>
         (\<forall>rv. remaining_views p = Some rv \<longrightarrow>
            1 \<le> rv \<and>
            map_of (body (fst (fetchCounted pid now st))) ''remaining_views'' = Some (JNum (rv - 1)) \<and>
            (1 < rv \<longrightarrow> record_at (snd (fetchCounted pid now st)) pid =
               Some (p\<lparr>remaining_views := Some (rv - 1), view_count := view_count p + 1\<rparr>)) \<and>
            (rv = 1 \<longrightarrow> record_at (snd (fetchCounted pid now st)) pid = None))))"
  (is "?M \<and> (?A \<longrightarrow> (\<exists>p. ?R p \<and> ?Q p))")
proof (rule conjI)
  show ?M
    using fetchMetadata_ok_frame [of pid now st] by blast
next
  show "?A \<longrightarrow> (\<exists>p. ?R p \<and> ?Q p)"
  proof
    assume a: ?A
    then have f: "faults st = []" and ok: "status (fst (fetchCounted pid now st)) = 200"
      by simp_all
    from ok have vid: "valid_id pid" by (rule fetchCounted_ok_valid)
    have "record_at st pid \<noteq> None"
    proof
      assume "record_at st pid = None"
      with f vid have "fst (fetchCounted pid now st) = not_found"
        by (simp add: fetchCounted_nofault)
      with ok show False by simp
    qed
    then obtain p where rec: "record_at st pid = Some p" by auto
    from f vid rec have eq: "fetchCounted pid now st = fetchCounted_loaded pid now (Some p) st"
      by (simp add: fetchCounted_nofault)
    note ld = fetchCounted_loaded_nofault [OF f, of pid now p]
    have live: "\<not> expired p now"
    proof
      assume "expired p now"
      with eq ld have "fst (fetchCounted pid now st) = not_found" by simp
      with ok show False by simp
    qed
    have q: "?Q p"
    proof (cases "remaining_views p")
      case None
      with eq ld live have "fetchCounted pid now st = (counted_response (viewed p), put pid (viewed p) st)"
        by simp
      with None show ?thesis
        by (simp add: viewed_unlimited)
    next
      case (Some rv)
      have pos: "1 \<le> rv"
      proof (rule ccontr)
        assume "\<not> 1 \<le> rv"
        with eq ld live Some have "fst (fetchCounted pid now st) = not_found" by simp
        with ok show False by simp
      qed
      have r: "map_of (body (counted_response (viewed p))) ''remaining_views'' = Some (JNum (rv - 1))"
        using Some by (simp add: counted_response_def num_or_null_def viewed_def)
      show ?thesis
      proof (cases "rv = 1")
        case True
        with eq ld live Some have "fetchCounted pid now st = (counted_response (viewed p), remove pid st)"
          by simp
        with Some True r show ?thesis by simp
      next
        case False
        with eq ld live Some pos
        have "fetchCounted pid now st = (counted_response (viewed p), put pid (viewed p) st)"
          by simp
        with Some False pos r show ?thesis
          by (simp add: viewed_limited)
      qed
    qed
    from rec q have "?R p \<and> ?Q p" by (rule conjI)
    then show "\<exists>p. ?R p \<and> ?Q p"
      by (rule exI [where x = p and P = "\<lambda>p. ?R p \<and> ?Q p"])
  qed
qed


theorem fetch_frame_witness:
  "redis (snd (fetchMetadata ''V1StGXR8_Z'' 0 (put ''V1StGXR8_Z'' (sample_paste None (Some 2)) (empty_store False)))) =
     redis (put ''V1StGXR8_Z'' (sample_paste None (Some 2)) (empty_store False)) \<and>
   memoryStore (snd (fetchMetadata ''V1StGXR8_Z'' 0 (put ''V1StGXR8_Z'' (sample_paste None (Some 2)) (empty_store False)))) =
     memoryStore (put ''V1StGXR8_Z'' (sample_paste None (Some 2)) (empty_store False)) \<and>
   map_of (body (fst (fetchCounted ''V1StGXR8_Z'' 0 (put ''V1StGXR8_Z'' (sample_paste None (Some 2)) (empty_store False)))))
     ''remaining_views'' = Some (JNum 1) \<and>
   record_at (snd (fetchCounted ''V1StGXR8_Z'' 0 (put ''V1StGXR8_Z'' (sample_paste None (Some 2)) (empty_store False))))
     ''V1StGXR8_Z'' = Some ((sample_paste None (Some 2))\<lparr>remaining_views := Some 1, view_count := 1\<rparr>)"
proof -
  let ?p = "sample_paste None (Some 2)"
  let ?st = "put ''V1StGXR8_Z'' ?p (empty_store False)"
  have f: "faults ?st = []" by simp
  have rec: "record_at ?st ''V1StGXR8_Z'' = Some ?p" by simp
  have live: "\<not> expired ?p 0" "\<not> exhausted ?p"
    by (simp_all add: expired_def exhausted_def sample_paste_def)
  have m: "status (fst (fetchMetadata ''V1StGXR8_Z'' 0 ?st)) = 200"
    by (simp add: fetchMetadata_live [OF f sample_id_valid rec live] metadata_response_def)
  have c: "status (fst (fetchCounted ''V1StGXR8_Z'' 0 ?st)) = 200"
    by (simp add: fetchCounted_live [OF f sample_id_valid rec live] counted_response_def)
  have rv: "remaining_views ?p = Some 2" "view_count ?p = 0"
    by (simp_all add: sample_paste_def)
  from fetch_frame [of "''V1StGXR8_Z''" 0 ?st] m c f
  obtain p where p: "record_at ?st ''V1StGXR8_Z'' = Some p"
    and q: "\<forall>rv. remaining_views p = Some rv \<longrightarrow>
            1 \<le> rv \<and>
            map_of (body (fst (fetchCounted ''V1StGXR8_Z'' 0 ?st))) ''remaining_views'' = Some (JNum (rv - 1)) \<and>
            (1 < rv \<longrightarrow> record_at (snd (fetchCounted ''V1StGXR8_Z'' 0 ?st)) ''V1StGXR8_Z'' =
               Some (p\<lparr>remaining_views := Some (rv - 1), view_count := view_count p + 1\<rparr>)) \<and>
            (rv = 1 \<longrightarrow> record_at (snd (fetchCounted ''V1StGXR8_Z'' 0 ?st)) ''V1StGXR8_Z'' = None)"
    and keep: "redis (snd (fetchMetadata ''V1StGXR8_Z'' 0 ?st)) = redis ?st"
      "memoryStore (snd (fetchMetadata ''V1StGXR8_Z'' 0 ?st)) = memoryStore ?st"
    by blast
  from p rec have "p = ?p" by simp
  with q [rule_format, of 2] rv keep show ?thesis by simp
qed

section \<open>The result of a creation\<close>

lemma pasteData_fields:
  assumes "valid_request_spec b"
  shows "body_content b = String (content (pasteData b now)) \<and>
         created_at (pasteData b now) = now \<and>
         expires_at (pasteData b now) =
           (case body_ttl_seconds b of Number (Integer T) \<Rightarrow> Some (now + T * 1000) | _ \<Rightarrow> None) \<and>
         max_views (pasteData b now) =
           (case body_max_views b of Number (Integer N) \<Rightarrow> Some N | _ \<Rightarrow> None) \<and>
         remaining_views (pasteData b now) = max_views (pasteData b now) \<and>
         view_count (pasteData b now) = 0"
proof -
  from assms obtain c where c: "body_content b = String c"
    by (auto simp add: valid_request_spec_def)
  have t: "map_option (\<lambda>t. now + t * 1000) (truthy_integer (body_ttl_seconds b)) =
      (case body_ttl_seconds b of Number (Integer T) \<Rightarrow> Some (now + T * 1000) | _ \<Rightarrow> None)"
  proof (cases "present (body_ttl_seconds b)")
    case True
    with assms obtain T where T: "body_ttl_seconds b = Number (Integer T)"
      by (auto simp add: valid_request_spec_def integer_in_def)
    with valid_ttl_seconds [OF assms T] show ?thesis by simp
  next
    case False
    then show ?thesis by (auto simp add: present_def truthy_integer_def)
  qed
  have m: "truthy_integer (body_max_views b) =
      (case body_max_views b of Number (Integer N) \<Rightarrow> Some N | _ \<Rightarrow> None)"
  proof (cases "present (body_max_views b)")
    case True
    with assms obtain N where N: "body_max_views b = Number (Integer N)"
      by (auto simp add: valid_request_spec_def integer_in_def)
    with valid_max_views [OF assms N] show ?thesis by simp
  next
    case False
    then show ?thesis by (auto simp add: present_def truthy_integer_def)
  qed
  from c t m show ?thesis by (simp add: pasteData_def)
qed

lemma createPaste_status:
  "status (fst (createPaste b nanoid now baseUrl st)) \<in> {201, 400, 500}"
  by (auto simp add: createPaste_def error_response_def internal_error_def
      split: option.splits prod.splits sum.splits)

lemma createPaste_valid_status:
  assumes "valid_request_spec b"
  shows "status (fst (createPaste b nanoid now baseUrl st)) \<in> {201, 500}"
proof -
  from assms have "validate b = None" by (simp add: validate_spec)
  then show ?thesis
    by (auto simp add: createPaste_def error_response_def internal_error_def
        split: prod.splits sum.splits)
qed

text \<open>
  Claim C9, as stated, fails: the 201 response of a valid creation has the properties
  \<open>id\<close> and \<open>url\<close> and no others.
\<close>

theorem create_response_counterexample:
  "valid_request_spec (sample_body ''hello'' (Number (Integer 60)) (Number (Integer 5))) \<and>
   fst (createPaste (sample_body ''hello'' (Number (Integer 60)) (Number (Integer 5))) sample_nanoid 1000
          ''http://localhost:3001'' (empty_store False)) =
     Response 201 [(''id'', JStr ''V1StGXR8_Z''), (''url'', JStr ''http://localhost:3001/p/V1StGXR8_Z'')] \<and>
   map_of (body (fst (createPaste (sample_body ''hello'' (Number (Integer 60)) (Number (Integer 5)))
          sample_nanoid 1000 ''http://localhost:3001'' (empty_store False)))) ''createdAt'' = None \<and>
   map_of (body (fst (createPaste (sample_body ''hello'' (Number (Integer 60)) (Number (Integer 5)))
          sample_nanoid 1000 ''http://localhost:3001'' (empty_store False)))) ''expiresAt'' = None \<and>
   map_of (body (fst (createPaste (sample_body ''hello'' (Number (Integer 60)) (Number (Integer 5)))
          sample_nanoid 1000 ''http://localhost:3001'' (empty_store False)))) ''maxViews'' = None"
proof -
  have v: "valid_request_spec (sample_body ''hello'' (Number (Integer 60)) (Number (Integer 5)))"
    by (simp add: valid_request_spec_def sample_body_def present_def integer_in_def trim_def isWhiteSpace_def)
  show ?thesis
    using v by (simp add: sample_create [OF v])
qed

text \<open>
  Claim C9, amended. A request that is not valid is answered with status 400 and changes
  nothing. A valid request is answered with 201 or 500, never 400. On a backend without
  failures, if one of the ten identifiers drawn is unused, a valid request is answered
  with status 201 and the properties \<open>id\<close> and \<open>url\<close>, and under that identifier the store
  then holds the record with the content, \<open>created_at = now\<close>,
  \<open>expires_at = now + ttl_seconds * 1000\<close> or \<open>null\<close>, \<open>max_views\<close> as given or \<open>null\<close>,
  \<open>remaining_views = max_views\<close> and \<open>view_count = 0\<close>.
\<close>

theorem create_result:
  "(\<not> valid_request_spec b \<longrightarrow>
      status (fst (createPaste b nanoid now baseUrl st)) = 400 \<and>
      snd (createPaste b nanoid now baseUrl st) = st) \<and>
   (valid_request_spec b \<longrightarrow> status (fst (createPaste b nanoid now baseUrl st)) \<in> {201, 500}) \<and>
   (valid_request_spec b \<and> faults st = [] \<and> (\<exists>j<maxAttempts. record_at st (nanoid j) = None) \<longrightarrow>
      (\<exists>pid p.
         fst (createPaste b nanoid now baseUrl st) =
           Response 201 [(''id'', JStr pid), (''url'', JStr (baseUrl @ ''/p/'' @ pid))] \<and>
         record_at (snd (createPaste b nanoid now baseUrl st)) pid = Some p \<and>
         body_content b = String (content p) \<and>
         created_at p = now \<and>
         expires_at p =
           (case body_ttl_seconds b of Number (Integer T) \<Rightarrow> Some (now + T * 1000) | _ \<Rightarrow> None) \<and>
         max_views p = (case body_max_views b of Number (Integer N) \<Rightarrow> Some N | _ \<Rightarrow> None) \<and>
         remaining_views p = max_views p \<and>
         view_count p = 0))"
  (is "?I \<and> ?V \<and> (?A \<longrightarrow> (\<exists>pid p. ?R pid p))")
proof (intro conjI)
  show ?I
    using invalid_rejected [of b nanoid now baseUrl st]
    by (auto simp add: error_response_def)
next
  show ?V
    using createPaste_valid_status [of b nanoid now baseUrl st] by blast
next
  show "?A \<longrightarrow> (\<exists>pid p. ?R pid p)"
  proof
    assume a: ?A
    then have v: "valid_request_spec b" and f: "faults st = []" by simp_all
    from a obtain j where j: "j < maxAttempts" "record_at st (nanoid j) = None" by blast
    from createPaste_succeeds [where st = st and b = b and j = j and nanoid = nanoid
        and now = now and baseUrl = baseUrl] f v j
    obtain bdy st' where
      c: "createPaste b nanoid now baseUrl st = (Response 201 bdy, st')"
      by blast
    from createPaste_created [OF f c] obtain k where
      k: "bdy = [(''id'', JStr (nanoid k)), (''url'', JStr (baseUrl @ ''/p/'' @ nanoid k))]"
        "record_at st' (nanoid k) = Some (pasteData b now)"
      by blast
    from c k pasteData_fields [OF v, of now] have "?R (nanoid k) (pasteData b now)"
      by simp
    then have "\<exists>p. ?R (nanoid k) p"
      by (rule exI [where x = "pasteData b now" and P = "\<lambda>p. ?R (nanoid k) p"])
    then show "\<exists>pid p. ?R pid p"
      by (rule exI [where x = "nanoid k" and P = "\<lambda>pid. \<exists>p. ?R pid p"])
  qed
qed

theorem create_result_witness:
  "status (fst (createPaste (sample_body ''   '' Undefined Undefined) sample_nanoid 1000
      ''http://localhost:3001'' (empty_store False))) = 400 \<and>
   snd (createPaste (sample_body ''   '' Undefined Undefined) sample_nanoid 1000
      ''http://localhost:3001'' (empty_store False)) = empty_store False \<and>
   status (fst (createPaste (sample_body ''hello'' (Number (Integer 60)) (Number (Integer 5))) sample_nanoid 1000
      ''http://localhost:3001'' (empty_store False))) \<in> {201, 500} \<and>
   (\<exists>pid p.
      fst (createPaste (sample_body ''hello'' (Number (Integer 60)) (Number (Integer 5))) sample_nanoid 1000
          ''http://localhost:3001'' (empty_store False)) =
        Response 201 [(''id'', JStr pid), (''url'', JStr (''http://localhost:3001'' @ ''/p/'' @ pid))] \<and>
      record_at (snd (createPaste (sample_body ''hello'' (Number (Integer 60)) (Number (Integer 5))) sample_nanoid 1000
          ''http://localhost:3001'' (empty_store False))) pid = Some p \<and>
      body_content (sample_body ''hello'' (Number (Integer 60)) (Number (Integer 5))) = String (content p) \<and>
      created_at p = 1000 \<and>
      expires_at p = Some (1000 + 60 * 1000) \<and>
      max_views p = Some 5 \<and>
      remaining_views p = max_views p \<and>
      view_count p = 0)"
proof -
  let ?bad = "sample_body ''   '' Undefined Undefined"
  let ?good = "sample_body ''hello'' (Number (Integer 60)) (Number (Integer 5))"
  have nv: "\<not> valid_request_spec ?bad"
    by (simp add: valid_request_spec_def sample_body_def trim_def isWhiteSpace_def)
  have v: "valid_request_spec ?good"
    by (simp add: valid_request_spec_def sample_body_def present_def integer_in_def trim_def isWhiteSpace_def)
  have free: "\<exists>j<maxAttempts. record_at (empty_store False) (sample_nanoid j) = None"
    by (simp add: maxAttempts_def) (rule exI [of _ 0], simp)
  have f: "faults (empty_store False) = []" by simp
  have t: "body_ttl_seconds ?good = Number (Integer 60)" "body_max_views ?good = Number (Integer 5)"
    by (simp_all add: sample_body_def)
  from create_result [of ?bad sample_nanoid 1000 "''http://localhost:3001''" "empty_store False"] nv
  have one: "status (fst (createPaste ?bad sample_nanoid 1000 ''http://localhost:3001'' (empty_store False))) = 400 \<and>
      snd (createPaste ?bad sample_nanoid 1000 ''http://localhost:3001'' (empty_store False)) = empty_store False"
    by blast
  from create_result [of ?good sample_nanoid 1000 "''http://localhost:3001''" "empty_store False"] v f free
  have two: "status (fst (createPaste ?good sample_nanoid 1000 ''http://localhost:3001'' (empty_store False))) \<in> {201, 500}"
    and three: "\<exists>pid p.
      fst (createPaste ?good sample_nanoid 1000 ''http://localhost:3001'' (empty_store False)) =
        Response 201 [(''id'', JStr pid), (''url'', JStr (''http://localhost:3001'' @ ''/p/'' @ pid))] \<and>
      record_at (snd (createPaste ?good sample_nanoid 1000 ''http://localhost:3001'' (empty_store False))) pid = Some p \<and>
      body_content ?good = String (content p) \<and>
      created_at p = 1000 \<and>
      expires_at p = (case body_ttl_seconds ?good of Number (Integer T) \<Rightarrow> Some (1000 + T * 1000) | _ \<Rightarrow> None) \<and>
      max_views p = (case body_max_views ?good of Number (Integer N) \<Rightarrow> Some N | _ \<Rightarrow> None) \<and>
      remaining_views p = max_views p \<and>
      view_count p = 0"
    by blast+
  from three have "\<exists>pid p.
      fst (createPaste ?good sample_nanoid 1000 ''http://localhost:3001'' (empty_store False)) =
        Response 201 [(''id'', JStr pid), (''url'', JStr (''http://localhost:3001'' @ ''/p/'' @ pid))] \<and>
      record_at (snd (createPaste ?good sample_nanoid 1000 ''http://localhost:3001'' (empty_store False))) pid = Some p \<and>
      body_content ?good = String (content p) \<and>
      created_at p = 1000 \<and>
      expires_at p = Some (1000 + 60 * 1000) \<and>
      max_views p = Some 5 \<and>
      remaining_views p = max_views p \<and>
      view_count p = 0"
    unfolding t by simp
  with one two show ?thesis by simp
qed

section \<open>Two counted fetches racing for the last view\<close>

text \<open>A request that runs alone, both steps in a row, is the counted fetch.\<close>

lemma task_alone:
  "run [A, A] pid now (Start, tb, st) =
     (Finished (fst (fetchCounted pid now st)), tb, snd (fetchCounted pid now st))"
  by (simp add: fetchCounted_def split: prod.splits)

lemma corrupt_at_remove [simp]: "\<not> corrupt_at (remove pid st) pid"
  by (simp add: corrupt_at_def remove_def)

lemma fetchCounted_loaded_None: "fetchCounted_loaded pid now None st = (not_found, st)"
  by (simp add: fetchCounted_loaded_def)

lemma race_store_simps:
  "faults race_store = []" "record_at race_store ''V1StGXR8_Z'' = Some (sample_paste None (Some 1))"
  "redisReady race_store"
  by (simp_all add: race_store_def record_at_def)

lemma race_load:
  "getPaste ''V1StGXR8_Z'' race_store = (Some (sample_paste None (Some 1)), race_store)"
  by (simp add: getPaste_nofault race_store_simps scrub_id [OF race_store_simps(2)])

lemma race_last_view:
  "faults st = [] \<Longrightarrow>
   fetchCounted_loaded ''V1StGXR8_Z'' 0 (Some (sample_paste None (Some 1))) st =
     (counted_response (viewed (sample_paste None (Some 1))), remove ''V1StGXR8_Z'' st)"
  by (simp add: fetchCounted_loaded_nofault expired_def sample_paste_def)

text \<open>
  Claim C2 asks that of two counted fetches racing for a record with one remaining view
  exactly one succeeds. The handler loads, decides and deletes with nothing that
  arbitrates between requests. With the record held by Redis and no failure, in the
  schedule where both requests load before either deletes, both answer 200 with the
  content; run one after the other, the first answers 200 and the second 404.
\<close>

theorem racing_fetches_both_succeed:
  "fst (run [A, B, A, B] ''V1StGXR8_Z'' 0 (Start, Start, race_store)) =
     Finished (counted_response (viewed (sample_paste None (Some 1)))) \<and>
   fst (snd (run [A, B, A, B] ''V1StGXR8_Z'' 0 (Start, Start, race_store))) =
     Finished (counted_response (viewed (sample_paste None (Some 1)))) \<and>
   counted_response (viewed (sample_paste None (Some 1))) =
     Response 200 [(''content'', JStr ''hello''), (''remaining_views'', JNum 0), (''expires_at'', JNull)] \<and>
   fst (run [A, A, B, B] ''V1StGXR8_Z'' 0 (Start, Start, race_store)) =
     Finished (counted_response (viewed (sample_paste None (Some 1)))) \<and>
   fst (snd (run [A, A, B, B] ''V1StGXR8_Z'' 0 (Start, Start, race_store))) = Finished not_found"
proof -
  have r: "counted_response (viewed (sample_paste None (Some 1))) =
     Response 200 [(''content'', JStr ''hello''), (''remaining_views'', JNum 0), (''expires_at'', JNull)]"
    by (simp add: counted_response_def viewed_def sample_paste_def num_or_null_def iso_or_null_def)
  have gone: "getPaste ''V1StGXR8_Z'' (remove ''V1StGXR8_Z'' race_store) =
      (None, remove ''V1StGXR8_Z'' race_store)"
    by (simp add: getPaste_nofault race_store_simps scrub_def)
  have interleaved: "run [A, B, A, B] ''V1StGXR8_Z'' 0 (Start, Start, race_store) =
      (Finished (counted_response (viewed (sample_paste None (Some 1)))),
       Finished (counted_response (viewed (sample_paste None (Some 1)))),
       remove ''V1StGXR8_Z'' (remove ''V1StGXR8_Z'' race_store))"
    by (simp add: race_load race_last_view race_store_simps)
  have serial: "run [A, A, B, B] ''V1StGXR8_Z'' 0 (Start, Start, race_store) =
      (Finished (counted_response (viewed (sample_paste None (Some 1)))),
       Finished not_found,
       remove ''V1StGXR8_Z'' race_store)"
    by (simp add: race_load race_last_view race_store_simps gone fetchCounted_loaded_None)
  show ?thesis
    unfolding interleaved serial using r by simp
qed

section \<open>Stored records keep a positive view budget\<close>

lemma savePaste_loop_effect:
  "savePaste_loop i retries pid d st = (r, st') \<Longrightarrow>
   redisReady st' = redisReady st \<and>
   (\<forall>q. record_at st' q = record_at st q \<or> (q = pid \<and> record_at st' q = Some d))"
proof (induction i retries pid d st rule: savePaste_loop.induct)
  case (1 i retries pid d st)
  show ?case
  proof (cases "i < retries \<and> redisReady st")
    case False
    with "1.prems" show ?thesis
      by (auto simp add: savePaste_loop.simps [of i] record_at_def split: if_splits)
  next
    case True
    obtain w st1 where rs: "redis_set (paste_key pid) (JSON_stringify d) st = (w, st1)"
      by (metis surj_pair)
    note fr = redis_set_cases [OF rs]
    have unf: "savePaste_loop i retries pid d st =
        (case w of Inr u \<Rightarrow> (Inr True, st1)
         | Inl e \<Rightarrow> if i = retries - 1 then (Inl SaveFailed, st1)
                    else savePaste_loop (i + 1) retries pid d st1)"
      using True rs by (simp add: savePaste_loop.simps [of i] split: sum.splits)
    show ?thesis
    proof (cases w)
      case (Inr u)
      with "1.prems" unf have "st' = st1" by simp
      with True fr Inr show ?thesis
        by (auto simp add: record_at_def paste_key_inj JSON_stringify_def)
    next
      case (Inl e)
      with fr have same: "\<forall>q. record_at st1 q = record_at st q"
        by (simp add: record_at_def)
      show ?thesis
      proof (cases "i = retries - 1")
        case last: True
        with "1.prems" unf Inl have "st' = st1" by simp
        with same fr show ?thesis by simp
      next
        case False
        with "1.prems" unf Inl have rec: "savePaste_loop (i + 1) retries pid d st1 = (r, st')"
          by simp
        from True have a: "i < retries" and b: "redisReady st" by simp_all
        from "1.IH" [OF a b rs [symmetric] _ False rec] Inl
        have "redisReady st' = redisReady st1 \<and>
           (\<forall>q. record_at st' q = record_at st1 q \<or> (q = pid \<and> record_at st' q = Some d))"
          by simp
        with same fr show ?thesis by simp
      qed
    qed
  qed
qed

lemma positive_save:
  assumes "positive_views st" "\<not> exhausted d"
  shows "positive_views (snd (savePaste pid d st))"
proof -
  obtain r st' where s: "savePaste pid d st = (r, st')" by (metis surj_pair)
  note eff = savePaste_loop_effect [OF s [unfolded savePaste_def]]
  show ?thesis
    unfolding positive_views_def s snd_conv
  proof (intro allI impI)
    fix q p
    assume a: "record_at st' q = Some p"
    from eff have "record_at st' q = record_at st q \<or> (q = pid \<and> record_at st' q = Some d)"
      by blast
    with a assms show "\<not> exhausted p"
      by (auto simp add: positive_views_def)
  qed
qed

lemma positive_delete:
  assumes "positive_views st"
  shows "positive_views (snd (deletePaste pid st))"
proof -
  obtain ok st' where d: "deletePaste pid st = (ok, st')" by (metis surj_pair)
  from deletePaste_effect [OF d] assms show ?thesis
    unfolding positive_views_def d snd_conv by (metis option.distinct(1))
qed

lemma positive_get:
  assumes "positive_views st"
  shows "positive_views (snd (getPaste pid st))"
proof -
  obtain r st' where g: "getPaste pid st = (r, st')" by (metis surj_pair)
  from getPaste_effect [OF g] assms show ?thesis
    unfolding positive_views_def g snd_conv by metis
qed

lemma positive_fetchMetadata:
  "positive_views st \<Longrightarrow> positive_views (snd (fetchMetadata pid now st))"
  using positive_get [of st pid] positive_delete [of "snd (getPaste pid st)" pid]
  by (auto simp add: fetchMetadata_def fetchMetadata_loaded_def split: prod.splits option.splits)

lemma positive_fetchCounted:
  assumes "positive_views st"
  shows "positive_views (snd (fetchCounted pid now st))"
proof (cases "pid = [] \<or> length pid > 100")
  case True
  with assms show ?thesis by (auto simp add: fetchCounted_def)
next
  case False
  obtain r st1 where g: "getPaste pid st = (r, st1)" by (metis surj_pair)
  from positive_get [OF assms, of pid] g have p1: "positive_views st1" by simp
  from False g have eq: "fetchCounted pid now st = fetchCounted_loaded pid now r st1"
    by (simp add: fetchCounted_def)
  show ?thesis
  proof (cases r)
    case None
    with eq p1 show ?thesis by (simp add: fetchCounted_loaded_def)
  next
    case (Some p)
    show ?thesis
    proof (cases "expired p now")
      case True
      with eq Some positive_delete [OF p1, of pid] show ?thesis
        by (simp add: fetchCounted_loaded_def)
    next
      case live: False
      show ?thesis
      proof (cases "remaining_views p")
        case None
        then have ne: "\<not> exhausted (p\<lparr>view_count := view_count p + 1\<rparr>)"
          by (simp add: exhausted_def)
        from eq Some live None positive_save [OF p1 ne, of pid] show ?thesis
          by (auto simp add: fetchCounted_loaded_def decrementViewsAtomic_def Let_def
              split: prod.splits sum.splits)
      next
        case (Some rv)
        show ?thesis
        proof (cases "rv \<le> 1")
          case True
          with eq \<open>r = Some p\<close> live Some positive_delete [OF p1, of pid] show ?thesis
            by (simp add: fetchCounted_loaded_def decrementViewsAtomic_def)
        next
          case False
          let ?p1 = "p\<lparr>remaining_views := Some (rv - 1)\<rparr>"
          let ?p2 = "?p1\<lparr>view_count := view_count ?p1 + 1\<rparr>"
          from False have ne: "\<not> exhausted ?p1" "\<not> exhausted ?p2"
            by (simp_all add: exhausted_def)
          have s1: "positive_views (snd (savePaste pid ?p1 st1))"
            by (rule positive_save [OF p1 ne(1)])
          have s2: "positive_views (snd (savePaste pid ?p2 (snd (savePaste pid ?p1 st1))))"
            by (rule positive_save [OF s1 ne(2)])
          from eq \<open>r = Some p\<close> live Some False s1 s2 show ?thesis
            by (auto simp add: fetchCounted_loaded_def decrementViewsAtomic_def Let_def
                split: prod.splits sum.splits)
        qed
      qed
    qed
  qed
qed


lemma positive_allocate_id:
  "positive_views st \<Longrightarrow> positive_views (snd (allocate_id k nanoid st))"
proof (induction k nanoid st rule: allocate_id.induct)
  case (1 attempts nanoid st)
  obtain r st1 where g: "getPaste (nanoid attempts) st = (r, st1)" by (metis surj_pair)
  from positive_get [OF "1.prems", of "nanoid attempts"] g have p1: "positive_views st1" by simp
  show ?case
  proof (cases r)
    case None
    with g p1 show ?thesis by (simp add: allocate_id.simps [of attempts])
  next
    case (Some existing)
    show ?thesis
    proof (cases "attempts + 1 < maxAttempts")
      case True
      from "1.IH" [OF g [symmetric] _ True p1] Some g True show ?thesis
        by (simp add: allocate_id.simps [of attempts])
    next
      case False
      with g Some p1 show ?thesis by (simp add: allocate_id.simps [of attempts])
    qed
  qed
qed

lemma positive_createPaste:
  assumes "positive_views st"
  shows "positive_views (snd (createPaste b nanoid now baseUrl st))"
proof (cases "validate b")
  case (Some msg)
  with assms show ?thesis by (simp add: createPaste_def)
next
  case None
  then have ne: "\<not> exhausted (pasteData b now)"
    by (intro valid_not_exhausted) (simp add: validate_spec)
  obtain pid a st1 where al: "allocate_id 0 nanoid st = ((pid, a), st1)"
    by (metis surj_pair)
  from positive_allocate_id [OF assms, of 0 nanoid] al have p1: "positive_views st1" by simp
  from None al p1 positive_save [OF p1 ne, of pid] show ?thesis
    by (auto simp add: createPaste_def split: prod.splits sum.splits)
qed

lemma positive_calls: "positive_views st \<Longrightarrow> positive_views (calls cs st)"
proof (induction cs arbitrary: st)
  case Nil
  then show ?case by simp
next
  case (Cons c cs)
  have "positive_views (snd (call_step c st))"
    using Cons.prems
    by (cases c) (simp_all add: positive_createPaste positive_fetchCounted positive_fetchMetadata)
  then show ?case by (simp add: Cons.IH)
qed

text \<open>
  Whatever requests are served one after the other, and whatever failures the backend
  has, a store that holds no record with \<open>remaining_views \<le> 0\<close> never comes to hold one:
  no load in such a run returns an exhausted record.
\<close>

lemma no_exhausted_record_loaded:
  assumes "positive_views st" "getPaste pid (calls cs st) = (Some p, st')"
  shows "\<not> exhausted p"
proof -
  from positive_calls [OF assms(1), of cs] have "positive_views (calls cs st)" .
  moreover from getPaste_effect [OF assms(2)] have "record_at (calls cs st) pid = Some p" by simp
  ultimately show ?thesis by (simp add: positive_views_def)
qed

lemma positive_empty_store: "positive_views (empty_store ready)"
  by (simp add: positive_views_def)

section \<open>A run of three counted fetches on a budget of two\<close>

lemma view_budget_example:
  "map status (fst (fetchCounted_seq ''V1StGXR8_Z'' [10, 20, 30]
      (put ''V1StGXR8_Z'' (sample_paste None (Some 2)) (empty_store False)))) = [200, 200, 404]"
proof -
  let ?p = "sample_paste None (Some 2)"
  let ?st = "put ''V1StGXR8_Z'' ?p (empty_store False)"
  have rv: "remaining_views ?p = Some 2" "remaining_views (viewed ?p) = Some 1"
    "\<not> expired ?p t" "\<not> expired (viewed ?p) t" for t
    by (simp_all add: sample_paste_def viewed_def expired_def)
  have one: "fetchCounted ''V1StGXR8_Z'' 10 ?st = (counted_response (viewed ?p), put ''V1StGXR8_Z'' (viewed ?p) ?st)"
    using rv by (simp add: fetchCounted_nofault sample_id_valid fetchCounted_loaded_nofault)
  have two: "fetchCounted ''V1StGXR8_Z'' 20 (put ''V1StGXR8_Z'' (viewed ?p) ?st) =
      (counted_response (viewed (viewed ?p)), remove ''V1StGXR8_Z'' (put ''V1StGXR8_Z'' (viewed ?p) ?st))"
    using rv by (simp add: fetchCounted_nofault sample_id_valid fetchCounted_loaded_nofault)
  have three: "fst (fetchCounted ''V1StGXR8_Z'' 30 (remove ''V1StGXR8_Z'' (put ''V1StGXR8_Z'' (viewed ?p) ?st))) = not_found"
    by (simp add: absent_nofault)
  show ?thesis
    using three by (auto simp add: one two counted_response_def split: prod.splits)
qed

end
